theory Spec2Isabelle
  imports Main
begin

section \<open>The outside world of the camera controller\<close>

text \<open>
  \<^verbatim>\<open>camera.py\<close> drives three external services: the camera device (picamera2), the GPIO
  edge-detection service (RPi.GPIO) and the file system. None of them is part of the
  repository, so they are modelled as an explicit \<open>world\<close> state that every call reads and
  updates. Console output is not modelled.

  The file contains the module text twice (lines 1-138 are cut off inside the class by the
  second copy, which starts at line 139). The second copy redefines the class and \<open>main\<close>
  with the same text, and each copy ends with a \<^verbatim>\<open>if __name__ == "__main__"\<close> block that
  calls \<open>main()\<close>; the definitions below follow lines 153-466 and the two script blocks.
\<close>

type_synonym size = "int \<times> int"

text \<open>A configuration descriptor as built by \<^verbatim>\<open>create_preview_configuration\<close> and
  \<^verbatim>\<open>create_still_configuration\<close>: the main stream's size, the optional low-resolution
  stream (size and format) and the optional buffer count.\<close>

record config =
  main_size :: size
  lores :: "(size \<times> string) option"
  buffer_count :: "nat option"

datatype preview = QTGL

text \<open>Every call the program makes to something outside itself.\<close>

datatype ext_op =
    Makedirs string
  | GpioSetmode
  | GpioSetup int
  | GpioAddEventDetect int
  | GpioCleanup
  | OpenCamera
  | CreatePreviewConfiguration size
  | CreateStillConfiguration size
  | CameraConfiguration
  | CameraProperties
  | Configure config
  | StartPreview preview
  | StopPreview
  | Start
  | Stop
  | CaptureFile string
  | Close
  | Sleep nat

datatype event = Did ext_op | Failed ext_op

text \<open>The exceptions of the program. All but \<open>KeyboardInterrupt\<close> derive from Python's
  \<^verbatim>\<open>Exception\<close>.\<close>

datatype exn = KeyboardInterrupt | EOFError | TypeError | ExternalError

definition is_Exception :: "exn \<Rightarrow> bool" where
  "is_Exception e = (e \<noteq> KeyboardInterrupt)"

record datetime =
  year :: nat
  month :: nat
  day :: nat
  hour :: nat
  minute :: nat
  second :: nat

text \<open>
  The world. \<open>ticks\<close> counts the external calls made so far; the three oracles say
  whether the call with a given number raises (depending on what is called), whether a
  \<^verbatim>\<open>capture_file\<close> made then really produces its file, and what \<^verbatim>\<open>datetime.now()\<close>
  reads then. They range over all
  behaviours of the services. \<open>paths\<close> is the set of paths that exist, \<open>written\<close> the
  image files written so far, in order (a file written again is listed again), \<open>applied\<close> the
  configuration \<^verbatim>\<open>camera_configuration()\<close> reports (\<open>None\<close> on a handle that has never
  been configured), \<open>trace\<close> the log of the external calls.

  The device itself is modelled from section 6 of the specification (the library is not in
  the repository): a call that returns has its effect, a call that raises has none.
\<close>

record world =
  ticks :: nat
  raises :: "nat \<Rightarrow> ext_op \<Rightarrow> bool"
  produces :: "nat \<Rightarrow> bool"
  clock :: "nat \<Rightarrow> datetime"
  paths :: "string set"
  written :: "string list"
  camera_open :: bool
  applied :: "config option"
  streaming :: bool
  window :: bool
  button_armed :: bool
  trace :: "event list"

fun effect :: "ext_op \<Rightarrow> world \<Rightarrow> world" where
  "effect (Makedirs p) w = w\<lparr>paths := insert p (paths w)\<rparr>"
| "effect (GpioAddEventDetect pin) w = w\<lparr>button_armed := True\<rparr>"
| "effect GpioCleanup w = w\<lparr>button_armed := False\<rparr>"
| "effect OpenCamera w =
     w\<lparr>camera_open := True, applied := None, streaming := False, window := False\<rparr>"
| "effect (Configure cfg) w = w\<lparr>applied := Some cfg\<rparr>"
| "effect (StartPreview k) w = w\<lparr>window := True\<rparr>"
| "effect StopPreview w = w\<lparr>window := False\<rparr>"
| "effect Start w = w\<lparr>streaming := True\<rparr>"
| "effect Stop w = w\<lparr>streaming := False\<rparr>"
| "effect (CaptureFile p) w =
     (if produces w (ticks w)
      then w\<lparr>paths := insert p (paths w), written := written w @ [p]\<rparr>
      else w)"
| "effect Close w = w\<lparr>camera_open := False\<rparr>"
| "effect _ w = w"

text \<open>\<^verbatim>\<open>time.sleep\<close> is the one external call that cannot raise.\<close>

fun can_raise :: "ext_op \<Rightarrow> bool" where
  "can_raise (Sleep n) = False"
| "can_raise _ = True"

text \<open>A call that returns has its effect, counts as one call and is logged; a call that
  raises is counted and logged only.\<close>

definition perform :: "ext_op \<Rightarrow> world \<Rightarrow> world" where
  "perform x w = (effect x w)\<lparr>ticks := Suc (ticks w), trace := trace w @ [Did x]\<rparr>"

definition refuse :: "ext_op \<Rightarrow> world \<Rightarrow> world" where
  "refuse x w = w\<lparr>ticks := Suc (ticks w), trace := trace w @ [Failed x]\<rparr>"

definition ext_call :: "ext_op \<Rightarrow> world \<Rightarrow> exn option \<times> world" where
  "ext_call x w =
     (if can_raise x \<and> raises w (ticks w) x then (Some ExternalError, refuse x w)
      else (None, perform x w))"

text \<open>A straight-line sequence of external calls inside one \<^verbatim>\<open>try\<close> block: the first
  call that raises ends it.\<close>

fun run_ops :: "ext_op list \<Rightarrow> world \<Rightarrow> exn option \<times> world" where
  "run_ops [] w = (None, w)"
| "run_ops (x # xs) w =
     (case ext_call x w of
        (Some e, w') \<Rightarrow> (Some e, w')
      | (None, w') \<Rightarrow> run_ops xs w')"

text \<open>
  \<^verbatim>\<open>strftime\<close> of Python's \<^verbatim>\<open>datetime\<close>, reading the format string: the six directives
  the program uses, for years of four digits (what \<^verbatim>\<open>datetime.now()\<close> returns). Every
  other character is copied, also a directive the program does not use.
\<close>

definition digit :: "nat \<Rightarrow> char" where
  "digit d = ''0123456789'' ! (d mod 10)"

definition pad2 :: "nat \<Rightarrow> string" where
  "pad2 n = [digit (n div 10), digit n]"

definition pad4 :: "nat \<Rightarrow> string" where
  "pad4 n = [digit (n div 1000), digit (n div 100), digit (n div 10), digit n]"

definition directive :: "char \<Rightarrow> datetime \<Rightarrow> string" where
  "directive d t =
     (if d = CHR ''Y'' then pad4 (year t)
      else if d = CHR ''m'' then pad2 (month t)
      else if d = CHR ''d'' then pad2 (day t)
      else if d = CHR ''H'' then pad2 (hour t)
      else if d = CHR ''M'' then pad2 (minute t)
      else if d = CHR ''S'' then pad2 (second t)
      else [CHR ''%'', d])"

fun strftime :: "string \<Rightarrow> datetime \<Rightarrow> string" where
  "strftime [] t = []"
| "strftime [ch] t = [ch]"
| "strftime (ch # d # fmt) t =
     (if ch = CHR ''%'' then directive d t @ strftime fmt t
      else ch # strftime (d # fmt) t)"

definition now :: "world \<Rightarrow> datetime" where
  "now w = clock w (ticks w)"

text \<open>
  The timestamp of the file name as the specification words it, \<^verbatim>\<open>YYYYMMDD_HHMMSS\<close>: the
  year in four decimal digits, then month and day in two digits each, an underscore, then
  hour, minute and second in two digits each, every field padded with zeros on the left.
  It is written without \<open>strftime\<close> and its helpers, to be compared with them.
\<close>

definition spec_digit :: "nat \<Rightarrow> char" where
  "spec_digit d =
     (if d = 0 then CHR ''0'' else if d = 1 then CHR ''1'' else if d = 2 then CHR ''2''
      else if d = 3 then CHR ''3'' else if d = 4 then CHR ''4'' else if d = 5 then CHR ''5''
      else if d = 6 then CHR ''6'' else if d = 7 then CHR ''7'' else if d = 8 then CHR ''8''
      else CHR ''9'')"

fun decimal :: "nat \<Rightarrow> string" where
  "decimal n =
     (if n < 10 then [spec_digit n] else decimal (n div 10) @ [spec_digit (n mod 10)])"

declare decimal.simps [simp del]

definition zero_padded :: "nat \<Rightarrow> nat \<Rightarrow> string" where
  "zero_padded k n = replicate (k - length (decimal n)) (CHR ''0'') @ decimal n"

definition spec_timestamp :: "datetime \<Rightarrow> string" where
  "spec_timestamp t =
     zero_padded 4 (year t) @ zero_padded 2 (month t) @ zero_padded 2 (day t) @ ''_''
     @ zero_padded 2 (hour t) @ zero_padded 2 (minute t) @ zero_padded 2 (second t)"

text \<open>A date and time that \<^verbatim>\<open>datetime.now()\<close> can read, with a year of four digits.\<close>

definition clock_time :: "datetime \<Rightarrow> bool" where
  "clock_time t =
     (1000 \<le> year t \<and> year t \<le> 9999 \<and> 1 \<le> month t \<and> month t \<le> 12 \<and>
      1 \<le> day t \<and> day t \<le> 31 \<and> hour t < 24 \<and> minute t < 60 \<and> second t < 60)"

section \<open>The controller\<close>

record controller =
  button_pin :: int
  preview_size :: size
  still_size :: size
  photos_dir :: string
  picam2 :: bool
  is_running :: bool
  preview_active :: bool
  preview_config :: config
  still_config :: config

text \<open>\<^verbatim>\<open>_create_photos_dir\<close> is not inside a \<^verbatim>\<open>try\<close>: a failing \<^verbatim>\<open>os.makedirs\<close>
  propagates.\<close>

definition create_photos_dir :: "string \<Rightarrow> world \<Rightarrow> exn option \<times> world" where
  "create_photos_dir dir w =
     (if dir \<notin> paths w then ext_call (Makedirs dir) w else (None, w))"

text \<open>\<^verbatim>\<open>_setup_gpio\<close> catches every \<^verbatim>\<open>Exception\<close> of its three GPIO calls and returns
  normally.\<close>

definition setup_gpio :: "int \<Rightarrow> world \<Rightarrow> world" where
  "setup_gpio pin w =
     (case run_ops [GpioSetmode, GpioSetup pin, GpioAddEventDetect pin] w of
        (Some e, w') \<Rightarrow> w'
      | (None, w') \<Rightarrow> w')"

text \<open>\<^verbatim>\<open>_initialize_camera\<close> logs and re-raises.\<close>

definition initialize_camera ::
  "size \<Rightarrow> size \<Rightarrow> world \<Rightarrow> (exn + config \<times> config) \<times> world" where
  "initialize_camera psize ssize w =
     (case run_ops [OpenCamera, CreatePreviewConfiguration psize,
                    CreateStillConfiguration ssize] w of
        (Some e, w') \<Rightarrow> (Inl e, w')
      | (None, w') \<Rightarrow>
          (Inr (\<lparr>main_size = psize, lores = Some ((640, 480), ''YUV420''),
                  buffer_count = None\<rparr>,
                \<lparr>main_size = ssize, lores = None, buffer_count = Some 1\<rparr>), w'))"

text \<open>\<^verbatim>\<open>__init__\<close>. The object exists for the caller only when no step raised, so the
  record is assembled at the end.\<close>

definition PiCameraController ::
  "int \<Rightarrow> size \<Rightarrow> size \<Rightarrow> world \<Rightarrow> (exn + controller) \<times> world" where
  "PiCameraController pin psize ssize w =
     (case create_photos_dir ''photos'' w of
        (Some e, w1) \<Rightarrow> (Inl e, w1)
      | (None, w1) \<Rightarrow>
          (case initialize_camera psize ssize (setup_gpio pin w1) of
             (Inl e, w3) \<Rightarrow> (Inl e, w3)
           | (Inr (pc, sc), w3) \<Rightarrow>
               (Inr \<lparr>button_pin = pin, preview_size = psize, still_size = ssize,
                     photos_dir = ''photos'', picam2 = True, is_running = False,
                     preview_active = False, preview_config = pc, still_config = sc\<rparr>,
                w3)))"

definition start_preview :: "controller \<Rightarrow> world \<Rightarrow> controller \<times> world" where
  "start_preview c w =
     (if \<not> preview_active c then
        (case run_ops [Configure (preview_config c), StartPreview QTGL, Start] w of
           (Some e, w') \<Rightarrow> (c, w')
         | (None, w') \<Rightarrow> (c\<lparr>preview_active := True, is_running := True\<rparr>, w'))
      else (c, w))"

definition stop_preview :: "controller \<Rightarrow> world \<Rightarrow> controller \<times> world" where
  "stop_preview c w =
     (if preview_active c then
        (case run_ops [StopPreview, Stop] w of
           (Some e, w') \<Rightarrow> (c, w')
         | (None, w') \<Rightarrow> (c\<lparr>preview_active := False\<rparr>, w'))
      else (c, w))"

text \<open>
  \<^verbatim>\<open>capture_photo\<close>. \<open>switch_to_still\<close> is the block under
  \<^verbatim>\<open>if needs_config_switch\<close> (lines 296-309), \<open>return_to_preview\<close> the block under
  \<^verbatim>\<open>if needs_config_switch and self.preview_active\<close> (lines 316-321). Subscripting the
  \<^verbatim>\<open>None\<close> that an unconfigured handle reports raises \<^verbatim>\<open>TypeError\<close>, which the
  \<^verbatim>\<open>except\<close> of the method catches like every other \<^verbatim>\<open>Exception\<close>.
  \<^verbatim>\<open>os.path.getsize\<close> is only printed.
\<close>

definition switch_to_still :: "controller \<Rightarrow> ext_op list" where
  "switch_to_still c =
     (let was_preview_active = preview_active c
      in (if preview_active c then [StopPreview] else [])
         @ [Stop, Configure (still_config c), Start]
         @ (if was_preview_active then [StartPreview QTGL] else [])
         @ [Sleep 1])"

definition return_to_preview :: "controller \<Rightarrow> ext_op list" where
  "return_to_preview c =
     [StopPreview, Stop, Configure (preview_config c), StartPreview QTGL, Start]"

definition capture_photo :: "controller \<Rightarrow> world \<Rightarrow> string option \<times> controller \<times> world" where
  "capture_photo c w =
     (let timestamp = strftime ''%Y%m%d_%H%M%S'' (now w);
          filename = photos_dir c @ ''/photo_'' @ timestamp @ ''.jpg''
      in case ext_call CameraConfiguration w of
           (Some e, w1) \<Rightarrow> (None, c, w1)
         | (None, w1) \<Rightarrow>
             (case applied w1 of
                None \<Rightarrow> (None, c, w1)
              | Some current_config \<Rightarrow>
                  (let needs_config_switch =
                         (main_size current_config \<noteq> main_size (still_config c))
                   in case run_ops
                             ((if needs_config_switch then switch_to_still c else [])
                              @ [CaptureFile filename]
                              @ (if needs_config_switch \<and> preview_active c
                                 then return_to_preview c else []))
                             w1 of
                        (Some e, w2) \<Rightarrow> (None, c, w2)
                      | (None, w2) \<Rightarrow>
                          if filename \<in> paths w2 then (Some filename, c, w2)
                          else (None, c, w2))))"

definition button_pressed :: "controller \<Rightarrow> world \<Rightarrow> controller \<times> world" where
  "button_pressed c w =
     (if is_running c then
        (case capture_photo c w of (filename, c', w') \<Rightarrow> (c', w'))
      else (c, w))"

definition apply_post_processing :: "string \<Rightarrow> string" where
  "apply_post_processing image_path = image_path"

text \<open>\<^verbatim>\<open>get_camera_info\<close>: the properties are only printed, a failure is caught.\<close>

definition get_camera_info :: "controller \<Rightarrow> world \<Rightarrow> world" where
  "get_camera_info c w =
     (if picam2 c then snd (ext_call CameraProperties w) else w)"

text \<open>\<^verbatim>\<open>cleanup\<close>: \<^verbatim>\<open>stop_preview\<close> catches its own errors; a failing \<^verbatim>\<open>close\<close> skips
  \<^verbatim>\<open>GPIO.cleanup\<close>.\<close>

definition cleanup :: "controller \<Rightarrow> world \<Rightarrow> controller \<times> world" where
  "cleanup c w =
     (let c1 = c\<lparr>is_running := False\<rparr>;
          (c2, w2) = (if preview_active c1 then stop_preview c1 w else (c1, w))
      in (c2, snd (run_ops ((if picam2 c2 then [Close] else []) @ [GpioCleanup]) w2)))"

section \<open>The command loop\<close>

text \<open>
  Standard input is a finite list of items: a line of text, or a keyboard interrupt
  arriving while \<^verbatim>\<open>input()\<close> blocks. At the end of the list \<^verbatim>\<open>input()\<close> raises
  \<^verbatim>\<open>EOFError\<close>. Lines are ASCII text; \<open>lower\<close> and \<open>strip\<close> are \<^verbatim>\<open>str.lower\<close> and
  \<^verbatim>\<open>str.strip\<close> on it.
\<close>

datatype input = Line string | CtrlC

definition lower_char :: "char \<Rightarrow> char" where
  "lower_char ch =
     (case map_of (zip ''ABCDEFGHIJKLMNOPQRSTUVWXYZ'' ''abcdefghijklmnopqrstuvwxyz'') ch of
        Some l \<Rightarrow> l
      | None \<Rightarrow> ch)"

definition lower :: "string \<Rightarrow> string" where
  "lower s = map lower_char s"

definition is_space :: "char \<Rightarrow> bool" where
  "is_space ch =
     (ch \<in> {CHR 0x09, CHR 0x0A, CHR 0x0B, CHR 0x0C, CHR 0x0D,
             CHR 0x1C, CHR 0x1D, CHR 0x1E, CHR 0x1F, CHR '' ''})"

definition strip :: "string \<Rightarrow> string" where
  "strip s = rev (dropWhile is_space (rev (dropWhile is_space s)))"

text \<open>The \<^verbatim>\<open>while self.is_running\<close> loop with its \<^verbatim>\<open>except KeyboardInterrupt\<close>. The result
  is the exception that leaves \<^verbatim>\<open>run_interactive_mode\<close>, if any, and the unread input.
  \<^verbatim>\<open>apply_post_processing\<close> (called on a returned path) and \<^verbatim>\<open>_show_status\<close> only print,
  so the branch \<^verbatim>\<open>c\<close> continues with the state \<^verbatim>\<open>capture_photo\<close> left and the branch
  \<^verbatim>\<open>s\<close> with the state unchanged. Each turn of the loop reads one item, so the loop ends
  on every finite input.\<close>

fun command_loop ::
  "input list \<Rightarrow> controller \<Rightarrow> world \<Rightarrow> exn option \<times> input list \<times> controller \<times> world" where
  "command_loop [] c w =
     (if is_running c then (Some EOFError, [], c, w) else (None, [], c, w))"
| "command_loop (i # rest) c w =
     (if \<not> is_running c then (None, i # rest, c, w)
      else case i of
             CtrlC \<Rightarrow> (None, rest, c\<lparr>is_running := False\<rparr>, w)
           | Line l \<Rightarrow>
               (let command = strip (lower l) in
                if command = ''c'' then
                  (case capture_photo c w of (filename, c', w') \<Rightarrow> command_loop rest c' w')
                else if command = ''s'' then command_loop rest c w
                else if command = ''q'' then (None, rest, c\<lparr>is_running := False\<rparr>, w)
                else command_loop rest c w))"

definition run_interactive_mode ::
  "input list \<Rightarrow> controller \<Rightarrow> world \<Rightarrow> exn option \<times> input list \<times> controller \<times> world" where
  "run_interactive_mode ins c w =
     (case start_preview c (get_camera_info c w) of
        (c1, w1) \<Rightarrow> command_loop ins c1 w1)"

text \<open>
  \<^verbatim>\<open>main\<close>: both handlers only print, so an exception that reaches them is gone; the
  \<^verbatim>\<open>finally\<close> block cleans up when the controller was constructed. The result is the
  exception that leaves \<open>main\<close>, if any.
\<close>

definition main_handlers :: "exn \<Rightarrow> exn option" where
  "main_handlers e =
     (if e = KeyboardInterrupt then None
      else if is_Exception e then None
      else Some e)"

definition main :: "input list \<Rightarrow> world \<Rightarrow> exn option \<times> input list \<times> world" where
  "main ins w =
     (case PiCameraController 0 (1640, 1232) (4056, 3040) w of
        (Inl e, w1) \<Rightarrow> (main_handlers e, ins, w1)
      | (Inr camera, w1) \<Rightarrow>
          (case run_interactive_mode ins camera w1 of
             (r, ins', camera', w2) \<Rightarrow>
               (case r of None \<Rightarrow> None | Some e \<Rightarrow> main_handlers e,
                ins', snd (cleanup camera' w2))))"

text \<open>The script: the two \<^verbatim>\<open>if __name__ == "__main__"\<close> blocks (lines 469-472 and
  606-609) run one after the other. The exit status is 0 when the module runs to its end
  and 1 when an exception leaves it.\<close>

definition script :: "input list \<Rightarrow> world \<Rightarrow> nat \<times> input list \<times> world" where
  "script ins w =
     (case main ins w of
        (Some e, ins1, w1) \<Rightarrow> (1, ins1, w1)
      | (None, ins1, w1) \<Rightarrow>
          (case main ins1 w1 of
             (Some e, ins2, w2) \<Rightarrow> (1, ins2, w2)
           | (None, ins2, w2) \<Rightarrow> (0, ins2, w2)))"

section \<open>Observations and sample states\<close>

text \<open>The events a call added to the log, and whether one of them is a call that raised.\<close>

definition new_events :: "world \<Rightarrow> world \<Rightarrow> event list" where
  "new_events w w' = drop (length (trace w)) (trace w')"

fun failed :: "event \<Rightarrow> bool" where
  "failed (Failed x) = True"
| "failed (Did x) = False"

fun is_capture :: "event \<Rightarrow> bool" where
  "is_capture (Did (CaptureFile p)) = True"
| "is_capture (Failed (CaptureFile p)) = True"
| "is_capture _ = False"

text \<open>What a caller can observe of the session: the two flags and the configuration the
  device reports.\<close>

definition observable :: "controller \<times> world \<Rightarrow> bool \<times> bool \<times> config option" where
  "observable s = (preview_active (fst s), is_running (fst s), applied (snd s))"

text \<open>
  The states a session can be in: those that the methods of the class, called in any order
  and on any input, lead to from a constructed controller. \<^verbatim>\<open>_show_status\<close> and
  \<^verbatim>\<open>apply_post_processing\<close> change nothing and are left out. The run of \<open>main\<close> is the
  constructor, \<open>InteractiveM\<close> on its input and \<open>CleanupM\<close>; the state in which its loop
  reads the next command is the one \<open>InteractiveM\<close> leaves on the input read so far.
\<close>

datatype session_call =
    StartPreviewM
  | StopPreviewM
  | CapturePhotoM
  | ButtonPressedM
  | GetCameraInfoM
  | InteractiveM "input list"
  | CleanupM

fun call_method :: "session_call \<Rightarrow> controller \<Rightarrow> world \<Rightarrow> controller \<times> world" where
  "call_method StartPreviewM c w = start_preview c w"
| "call_method StopPreviewM c w = stop_preview c w"
| "call_method CapturePhotoM c w = snd (capture_photo c w)"
| "call_method ButtonPressedM c w = button_pressed c w"
| "call_method GetCameraInfoM c w = (c, get_camera_info c w)"
| "call_method (InteractiveM ins) c w =
     (case run_interactive_mode ins c w of (r, ins', c', w') \<Rightarrow> (c', w'))"
| "call_method CleanupM c w = cleanup c w"

fun call_methods :: "session_call list \<Rightarrow> controller \<Rightarrow> world \<Rightarrow> controller \<times> world" where
  "call_methods [] c w = (c, w)"
| "call_methods (m # ms) c w = (case call_method m c w of (c', w') \<Rightarrow> call_methods ms c' w')"

text \<open>What the methods keep true of a session: a device without a configuration belongs
  to a session that is not running, and a configured device is in one of the two profiles
  of the session.\<close>

definition session_inv :: "controller \<Rightarrow> world \<Rightarrow> bool" where
  "session_inv c w =
     (case applied w of
        None \<Rightarrow> \<not> is_running c
      | Some cfg \<Rightarrow> cfg = preview_config c \<or> cfg = still_config c)"

definition sample_time :: datetime where
  "sample_time = \<lparr>year = 2024, month = 1, day = 31, hour = 9, minute = 30, second = 5\<rparr>"

text \<open>A world in which the photos directory exists, no call raises and every capture
  produces its file.\<close>

definition quiet_world :: world where
  "quiet_world =
     \<lparr>ticks = 0, raises = (\<lambda>n x. False), produces = (\<lambda>n. True),
      clock = (\<lambda>n. sample_time), paths = {''photos''}, written = [],
      camera_open = False,
      applied = None, streaming = False, window = False, button_armed = False,
      trace = []\<rparr>"

text \<open>Worlds in which the camera cannot be opened, in which every GPIO call raises, and in
  which the call number \<open>k\<close> raises and no other.\<close>

definition no_camera_world :: world where
  "no_camera_world = quiet_world\<lparr>raises := (\<lambda>n x. x = OpenCamera)\<rparr>"

fun is_gpio :: "ext_op \<Rightarrow> bool" where
  "is_gpio GpioSetmode = True"
| "is_gpio (GpioSetup pin) = True"
| "is_gpio (GpioAddEventDetect pin) = True"
| "is_gpio GpioCleanup = True"
| "is_gpio _ = False"

definition no_gpio_world :: world where
  "no_gpio_world = quiet_world\<lparr>raises := (\<lambda>n x. is_gpio x)\<rparr>"

definition glitch_world :: "nat \<Rightarrow> world" where
  "glitch_world k = quiet_world\<lparr>raises := (\<lambda>n x. n = k)\<rparr>"

text \<open>The controller that \<open>main\<close> constructs, as it is after construction.\<close>

definition sample_controller :: controller where
  "sample_controller =
     \<lparr>button_pin = 0, preview_size = (1640, 1232), still_size = (4056, 3040),
      photos_dir = ''photos'', picam2 = True, is_running = False, preview_active = False,
      preview_config = \<lparr>main_size = (1640, 1232), lores = Some ((640, 480), ''YUV420''),
                          buffer_count = None\<rparr>,
      still_config = \<lparr>main_size = (4056, 3040), lores = None, buffer_count = Some 1\<rparr>\<rparr>"

text \<open>The world as the constructor call of \<open>main\<close> leaves it.\<close>

definition constructed_in :: "world \<Rightarrow> world" where
  "constructed_in w = snd (PiCameraController 0 (1640, 1232) (4056, 3040) w)"

text \<open>A session constructed in the quiet world, after \<^verbatim>\<open>start_preview\<close>: preview on, the
  preview profile applied.\<close>

definition previewing :: "controller \<times> world" where
  "previewing = start_preview sample_controller (constructed_in quiet_world)"

text \<open>The same session after \<^verbatim>\<open>stop_preview\<close>: preview off, the preview profile still
  applied.\<close>

definition preview_stopped :: "controller \<times> world" where
  "preview_stopped = stop_preview (fst previewing) (snd previewing)"

text \<open>A session like \<open>previewing\<close>, in a world where the call number 17 raises: counted
  from the constructor's first GPIO call, that is the first call of the switch back to
  the preview profile in the first capture.\<close>

definition interrupted :: "controller \<times> world" where
  "interrupted = start_preview sample_controller (constructed_in (glitch_world 17))"

text \<open>The session of \<open>main\<close> in the quiet world when its loop is about to read the first
  command: constructed, camera properties read, preview started.\<close>

definition loop_start :: "controller \<times> world" where
  "loop_start = call_methods [InteractiveM []] sample_controller (constructed_in quiet_world)"

text \<open>A world in which \<^verbatim>\<open>capture_file\<close> produces its file up to the call number 19 and
  returns without writing anything from then on, and the session of \<open>main\<close> in it after the
  loop has read one \<^verbatim>\<open>c\<close>: the first photo is taken (its \<^verbatim>\<open>capture_file\<close> is the call
  number 17), the clock still reads the same second.\<close>

definition tired_world :: world where
  "tired_world = quiet_world\<lparr>produces := (\<lambda>n. n < 20)\<rparr>"

definition second_shot :: "controller \<times> world" where
  "second_shot =
     call_methods [InteractiveM [Line ''c'']] sample_controller (constructed_in tired_world)"

section \<open>Facts about single calls and call sequences\<close>

lemma perform_fields [simp]:
  "ticks (perform x w) = Suc (ticks w)"
  "trace (perform x w) = trace w @ [Did x]"
  "raises (perform x w) = raises w"
  "produces (perform x w) = produces w"
  "clock (perform x w) = clock w"
  by (cases x; simp add: perform_def)+

lemma refuse_fields [simp]:
  "ticks (refuse x w) = Suc (ticks w)"
  "trace (refuse x w) = trace w @ [Failed x]"
  "raises (refuse x w) = raises w"
  "produces (refuse x w) = produces w"
  "clock (refuse x w) = clock w"
  "applied (refuse x w) = applied w"
  "paths (refuse x w) = paths w"
  "written (refuse x w) = written w"
  by (simp_all add: refuse_def)

lemma applied_perform:
  "applied (perform x w) =
     (case x of Configure cfg \<Rightarrow> Some cfg | OpenCamera \<Rightarrow> None | _ \<Rightarrow> applied w)"
  by (cases x) (simp_all add: perform_def)

lemma paths_perform:
  "paths (perform x w) =
     (case x of Makedirs p \<Rightarrow> insert p (paths w)
      | CaptureFile p \<Rightarrow> (if produces w (ticks w) then insert p (paths w) else paths w)
      | _ \<Rightarrow> paths w)"
  by (cases x) (simp_all add: perform_def)

lemma written_perform:
  "written (perform x w) =
     (case x of
        CaptureFile p \<Rightarrow> (if produces w (ticks w) then written w @ [p] else written w)
      | _ \<Rightarrow> written w)"
  by (cases x) (simp_all add: perform_def)

lemma ext_call_cases:
  "ext_call x w = (None, perform x w) \<or> ext_call x w = (Some ExternalError, refuse x w)"
  by (simp add: ext_call_def)

lemma run_ops_append:
  "run_ops (xs @ ys) w =
     (case run_ops xs w of (Some e, w') \<Rightarrow> (Some e, w') | (None, w') \<Rightarrow> run_ops ys w')"
  by (induction xs arbitrary: w) (auto split: prod.splits option.splits)

lemma run_ops_ok:
  "run_ops xs w = (None, w') \<Longrightarrow> w' = fold perform xs w"
proof (induction xs arbitrary: w)
  case Nil
  then show ?case by simp
next
  case (Cons x xs)
  then show ?case
    using ext_call_cases [of x w] by (auto split: prod.splits option.splits)
qed

lemma run_ops_trace:
  "run_ops xs w = (r, w') \<Longrightarrow>
     (r = None \<and> trace w' = trace w @ map Did xs) \<or>
     (r = Some ExternalError \<and>
      (\<exists>k < length xs. trace w' = trace w @ map Did (take k xs) @ [Failed (xs ! k)]))"
proof (induction xs arbitrary: w)
  case Nil
  then show ?case by simp
next
  case (Cons x xs)
  from ext_call_cases [of x w] show ?case
  proof
    assume ok: "ext_call x w = (None, perform x w)"
    with Cons.prems have "run_ops xs (perform x w) = (r, w')" by simp
    from Cons.IH [OF this] show ?thesis
    proof
      assume "r = None \<and> trace w' = trace (perform x w) @ map Did xs"
      then show ?thesis by simp
    next
      assume "r = Some ExternalError \<and>
        (\<exists>k<length xs. trace w' = trace (perform x w) @ map Did (take k xs) @ [Failed (xs ! k)])"
      then obtain k where k: "k < length xs" "r = Some ExternalError"
        "trace w' = trace (perform x w) @ map Did (take k xs) @ [Failed (xs ! k)]" by blast
      then have "Suc k < length (x # xs) \<and>
        trace w' = trace w @ map Did (take (Suc k) (x # xs)) @ [Failed ((x # xs) ! Suc k)]"
        by simp
      with k(2) show ?thesis by blast
    qed
  next
    assume bad: "ext_call x w = (Some ExternalError, refuse x w)"
    with Cons.prems have "r = Some ExternalError" "w' = refuse x w" by simp_all
    then have "0 < length (x # xs) \<and>
        trace w' = trace w @ map Did (take 0 (x # xs)) @ [Failed ((x # xs) ! 0)]" by simp
    with \<open>r = Some ExternalError\<close> show ?thesis by blast
  qed
qed

lemma main_handlers_None: "main_handlers e = None"
  by (cases e) (simp_all add: main_handlers_def is_Exception_def)

lemma main_returns: "fst (main ins w) = None"
  by (simp add: main_def main_handlers_None split: prod.splits sum.splits option.splits)

lemma script_status: "fst (script ins w) = 0"
proof -
  obtain ins1 w1 where m1: "main ins w = (None, ins1, w1)"
    using main_returns [of ins w] by (cases "main ins w") auto
  obtain ins2 w2 where m2: "main ins1 w1 = (None, ins2, w2)"
    using main_returns [of ins1 w1] by (cases "main ins1 w1") auto
  show ?thesis by (simp add: script_def m1 m2)
qed

lemma new_events_append [simp]: "trace w' = trace w @ es \<Longrightarrow> new_events w w' = es"
  by (simp add: new_events_def)

lemma failed_map_Did [simp]: "\<not> list_ex failed (map Did xs)"
  by (induction xs) simp_all

lemma run_ops_failed:
  assumes "run_ops xs w = (r, w')"
  shows "list_ex failed (new_events w w') = (r \<noteq> None)"
  using run_ops_trace [OF assms] by (auto simp: list_ex_iff)

lemma run_ops_events:
  assumes "run_ops xs w = (r, w')"
  shows "\<exists>es. trace w' = trace w @ es \<and> set es \<subseteq> Did ` set xs \<union> Failed ` set xs \<and>
           (r = None \<longrightarrow> es = map Did xs) \<and> (r \<noteq> None \<longrightarrow> list_ex failed es)"
  using run_ops_trace [OF assms]
proof
  assume "r = None \<and> trace w' = trace w @ map Did xs"
  then show ?thesis by auto
next
  assume "r = Some ExternalError \<and>
    (\<exists>k<length xs. trace w' = trace w @ map Did (take k xs) @ [Failed (xs ! k)])"
  then obtain k where k: "r = Some ExternalError" "k < length xs"
    "trace w' = trace w @ map Did (take k xs) @ [Failed (xs ! k)]" by blast
  have "set (map Did (take k xs) @ [Failed (xs ! k)]) \<subseteq> Did ` set xs \<union> Failed ` set xs"
    using k(2) by (auto dest: in_set_takeD)
  moreover have "list_ex failed (map Did (take k xs) @ [Failed (xs ! k)])"
    by (simp add: list_ex_iff)
  ultimately show ?thesis using k(1,3) by blast
qed

lemma capture_photo_cases [case_names refused unconfigured ran]:
  obtains
    "capture_photo c w = (None, c, refuse CameraConfiguration w)"
  | "applied w = None" "capture_photo c w = (None, c, perform CameraConfiguration w)"
  | cur r w2 where "applied w = Some cur"
      "run_ops ((if main_size cur \<noteq> main_size (still_config c) then switch_to_still c else [])
                @ [CaptureFile (photos_dir c @ ''/photo_'' @ strftime ''%Y%m%d_%H%M%S'' (now w) @ ''.jpg'')]
                @ (if main_size cur \<noteq> main_size (still_config c) \<and> preview_active c
                   then return_to_preview c else []))
         (perform CameraConfiguration w) = (r, w2)"
      "capture_photo c w =
         (if r = None \<and> photos_dir c @ ''/photo_'' @ strftime ''%Y%m%d_%H%M%S'' (now w) @ ''.jpg'' \<in> paths w2
          then Some (photos_dir c @ ''/photo_'' @ strftime ''%Y%m%d_%H%M%S'' (now w) @ ''.jpg'') else None,
          c, w2)"
proof -
  from ext_call_cases [of CameraConfiguration w] show ?thesis
  proof
    assume "ext_call CameraConfiguration w = (Some ExternalError, refuse CameraConfiguration w)"
    then have "capture_photo c w = (None, c, refuse CameraConfiguration w)"
      by (simp add: capture_photo_def Let_def del: run_ops.simps)
    then show ?thesis by (rule that(1))
  next
    assume ok: "ext_call CameraConfiguration w = (None, perform CameraConfiguration w)"
    have app: "applied (perform CameraConfiguration w) = applied w"
      by (simp add: applied_perform)
    show ?thesis
    proof (cases "applied w")
      case None
      with ok app have "capture_photo c w = (None, c, perform CameraConfiguration w)"
        by (simp add: capture_photo_def Let_def del: run_ops.simps)
      with None show ?thesis by (rule that(2))
    next
      case (Some cur)
      obtain r w2 where run:
        "run_ops ((if main_size cur \<noteq> main_size (still_config c) then switch_to_still c else [])
                @ [CaptureFile (photos_dir c @ ''/photo_'' @ strftime ''%Y%m%d_%H%M%S'' (now w) @ ''.jpg'')]
                @ (if main_size cur \<noteq> main_size (still_config c) \<and> preview_active c
                   then return_to_preview c else []))
         (perform CameraConfiguration w) = (r, w2)"
        by (metis surj_pair)
      with ok app Some have "capture_photo c w =
         (if r = None \<and> photos_dir c @ ''/photo_'' @ strftime ''%Y%m%d_%H%M%S'' (now w) @ ''.jpg'' \<in> paths w2
          then Some (photos_dir c @ ''/photo_'' @ strftime ''%Y%m%d_%H%M%S'' (now w) @ ''.jpg'') else None,
          c, w2)"
        by (cases r) (simp_all add: capture_photo_def Let_def del: run_ops.simps)
      with Some run show ?thesis by (rule that(3))
    qed
  qed
qed

lemma applied_after_capture_ops:
  "applied (fold perform ((if n then switch_to_still c else []) @ [CaptureFile f]
                          @ (if n \<and> preview_active c then return_to_preview c else [])) w)
   = (if n then (if preview_active c then Some (preview_config c) else Some (still_config c))
      else applied w)"
  by (simp add: switch_to_still_def return_to_preview_def applied_perform Let_def)

lemma capture_photo_controller: "fst (snd (capture_photo c w)) = c"
  by (simp add: capture_photo_def Let_def split: prod.splits option.splits
      del: run_ops.simps)

lemma start_preview_running: "is_running c \<Longrightarrow> is_running (fst (start_preview c w))"
  by (simp add: start_preview_def split: prod.splits option.splits del: run_ops.simps)

lemma stop_preview_running: "is_running (fst (stop_preview c w)) = is_running c"
  by (simp add: stop_preview_def split: prod.splits option.splits del: run_ops.simps)

lemma button_pressed_running: "is_running (fst (button_pressed c w)) = is_running c"
  using capture_photo_controller [of c w]
  by (cases "capture_photo c w") (auto simp: button_pressed_def)

lemma cleanup_not_running: "\<not> is_running (fst (cleanup c w))"
  using stop_preview_running [of "c\<lparr>is_running := False\<rparr>" w]
  by (cases "stop_preview (c\<lparr>is_running := False\<rparr>) w")
     (auto simp: cleanup_def Let_def simp del: run_ops.simps)

lemma command_loop_stops:
  "command_loop ins c w = (r, ins', c', w') \<Longrightarrow> is_running c \<Longrightarrow> \<not> is_running c' \<Longrightarrow>
   \<exists>used. ins = used @ ins' \<and> used \<noteq> [] \<and>
     (last used = CtrlC \<or> (\<exists>l. last used = Line l \<and> strip (lower l) = ''q''))"
proof (induction ins arbitrary: c w)
  case Nil
  then show ?case by simp
next
  case (Cons i rest)
  show ?case
  proof (cases i)
    case CtrlC
    with Cons.prems have "ins' = rest" by simp
    with CtrlC have "i # rest = [i] @ ins' \<and> [i] \<noteq> [] \<and> last [i] = CtrlC" by simp
    then show ?thesis by blast
  next
    case (Line l)
    show ?thesis
    proof (cases "strip (lower l) = ''q''")
      case True
      with Line Cons.prems have "ins' = rest" by simp
      with Line True have "i # rest = [i] @ ins' \<and> [i] \<noteq> [] \<and>
          (\<exists>l. last [i] = Line l \<and> strip (lower l) = ''q'')" by simp
      then show ?thesis by blast
    next
      case False
      have "\<exists>c1 w1. is_running c1 \<and> command_loop rest c1 w1 = (r, ins', c', w')"
      proof (cases "strip (lower l) = ''c''")
        case True
        obtain f c1 w1 where cap: "capture_photo c w = (f, c1, w1)"
          by (cases "capture_photo c w")
        with capture_photo_controller [of c w] have "c1 = c" by simp
        with cap True Line Cons.prems show ?thesis by auto
      next
        case notc: False
        with False Line Cons.prems have "command_loop rest c w = (r, ins', c', w')"
          by (simp add: Let_def split: if_splits)
        with Cons.prems show ?thesis by blast
      qed
      then obtain c1 w1 where run: "is_running c1" "command_loop rest c1 w1 = (r, ins', c', w')"
        by blast
      from Cons.IH [OF run(2) run(1) Cons.prems(3)]
      obtain used where u: "rest = used @ ins'" "used \<noteq> []"
        "last used = CtrlC \<or> (\<exists>l. last used = Line l \<and> strip (lower l) = ''q'')" by blast
      then have "i # rest = (i # used) @ ins' \<and> i # used \<noteq> [] \<and>
        (last (i # used) = CtrlC \<or> (\<exists>l. last (i # used) = Line l \<and> strip (lower l) = ''q''))"
        by simp
      then show ?thesis by blast
    qed
  qed
qed

text \<open>\<open>strftime\<close> on the program's format string gives the timestamp the specification
  words, for every clock time.\<close>

lemma below_ten:
  "(k::nat) < 10 \<Longrightarrow>
   k = 0 \<or> k = 1 \<or> k = 2 \<or> k = 3 \<or> k = 4 \<or> k = 5 \<or> k = 6 \<or> k = 7 \<or> k = 8 \<or> k = 9"
  by arith

lemma digit_spec: "digit d = spec_digit (d mod 10)"
proof -
  have "d mod 10 < 10" by simp
  from below_ten [OF this] show ?thesis
    by (elim disjE) (simp_all add: digit_def spec_digit_def)
qed

lemma decimal_1: "n < 10 \<Longrightarrow> decimal n = [spec_digit n]"
  by (simp add: decimal.simps)

lemma decimal_2: "10 \<le> n \<Longrightarrow> n < 100 \<Longrightarrow> decimal n = [spec_digit (n div 10), spec_digit (n mod 10)]"
  by (subst decimal.simps) (simp add: decimal_1)

lemma decimal_3:
  "100 \<le> n \<Longrightarrow> n < 1000 \<Longrightarrow>
   decimal n = [spec_digit (n div 100), spec_digit (n div 10 mod 10), spec_digit (n mod 10)]"
  by (subst decimal.simps) (simp add: decimal_2 div_mult2_eq [symmetric])

lemma decimal_4:
  "1000 \<le> n \<Longrightarrow> n < 10000 \<Longrightarrow>
   decimal n = [spec_digit (n div 1000), spec_digit (n div 100 mod 10),
                spec_digit (n div 10 mod 10), spec_digit (n mod 10)]"
  by (subst decimal.simps) (simp add: decimal_3 div_mult2_eq [symmetric])

lemma pad2_spec: "n < 100 \<Longrightarrow> pad2 n = zero_padded 2 n"
proof (cases "n < 10")
  case True
  then show ?thesis
    by (simp add: pad2_def zero_padded_def decimal_1 digit_spec spec_digit_def)
next
  case False
  assume "n < 100"
  with False show ?thesis
    by (simp add: pad2_def zero_padded_def decimal_2 digit_spec)
qed

lemma pad4_spec: "1000 \<le> n \<Longrightarrow> n \<le> 9999 \<Longrightarrow> pad4 n = zero_padded 4 n"
  by (simp add: pad4_def zero_padded_def decimal_4 digit_spec)

lemma strftime_spec:
  "clock_time t \<Longrightarrow> strftime ''%Y%m%d_%H%M%S'' t = spec_timestamp t"
  by (simp add: clock_time_def directive_def spec_timestamp_def pad2_spec pad4_spec)

text \<open>The definitions a concrete run unfolds.\<close>

lemmas eval_defs =
  main_def PiCameraController_def create_photos_dir_def setup_gpio_def ext_call_def
  perform_def refuse_def initialize_camera_def run_interactive_mode_def
  get_camera_info_def start_preview_def stop_preview_def capture_photo_def
  switch_to_still_def return_to_preview_def constructed_in_def previewing_def preview_stopped_def interrupted_def
  loop_start_def tired_world_def second_shot_def
  button_pressed_def cleanup_def lower_def strip_def lower_char_def is_space_def
  now_def directive_def pad2_def pad4_def digit_def main_handlers_def is_Exception_def
  script_def new_events_def observable_def Let_def
  sample_time_def quiet_world_def no_camera_world_def no_gpio_world_def glitch_world_def
  sample_controller_def



section \<open>Start-up failures\<close>

text \<open>
  C1, as stated: if \<^verbatim>\<open>_initialize_camera\<close> raises, the process never enters the command
  loop and exits with a non-zero status. The second half fails: in a world whose camera
  cannot be opened the initialization raises and the script still ends with status 0.
\<close>

theorem init_failure_exit_status_counterexample:
  "fst (initialize_camera (1640, 1232) (4056, 3040) (setup_gpio 0 no_camera_world))
     = Inl ExternalError
   \<and> \<not> fst (script [] no_camera_world) \<noteq> 0"
  by (simp add: eval_defs)

text \<open>
  C1, amended: if \<^verbatim>\<open>_initialize_camera\<close> raises, \<open>main\<close> returns normally from its
  \<^verbatim>\<open>except Exception\<close> handler with the world as the failed initialization left it and
  the input unread (no command loop, no preview, no cleanup), and the exit status of the
  script is 0.
\<close>

theorem init_failure_returns_normally:
  "create_photos_dir ''photos'' w = (None, w1) \<and>
   initialize_camera (1640, 1232) (4056, 3040) (setup_gpio 0 w1) = (Inl e, w2)
   \<longrightarrow> main ins w = (None, ins, w2) \<and> fst (script ins w) = 0"
  by (simp add: main_def PiCameraController_def main_handlers_None script_status)

theorem init_failure_returns_normally_witness:
  "create_photos_dir ''photos'' no_camera_world = (None, no_camera_world) \<and>
   fst (initialize_camera (1640, 1232) (4056, 3040) (setup_gpio 0 no_camera_world))
     = Inl ExternalError \<and>
   fst (main [Line ''c''] no_camera_world) = None \<and>
   fst (snd (main [Line ''c''] no_camera_world)) = [Line ''c''] \<and>
   fst (script [Line ''c''] no_camera_world) = 0"
proof -
  have dir: "create_photos_dir ''photos'' no_camera_world = (None, no_camera_world)"
    by (simp add: eval_defs)
  have fails: "fst (initialize_camera (1640, 1232) (4056, 3040) (setup_gpio 0 no_camera_world))
     = Inl ExternalError"
    by (simp add: eval_defs)
  then have init: "initialize_camera (1640, 1232) (4056, 3040) (setup_gpio 0 no_camera_world)
     = (Inl ExternalError,
        snd (initialize_camera (1640, 1232) (4056, 3040) (setup_gpio 0 no_camera_world)))"
    by (metis prod.collapse)
  from init_failure_returns_normally
    [of no_camera_world no_camera_world ExternalError
        "snd (initialize_camera (1640, 1232) (4056, 3040) (setup_gpio 0 no_camera_world))"
        "[Line ''c'']"] dir init
  have "main [Line ''c''] no_camera_world =
          (None, [Line ''c''],
           snd (initialize_camera (1640, 1232) (4056, 3040) (setup_gpio 0 no_camera_world)))
        \<and> fst (script [Line ''c''] no_camera_world) = 0"
    by blast
  with dir fails show ?thesis by simp
qed

text \<open>
  C3, as stated: if GPIO setup raises during construction, the process aborts before the
  command loop. It does not: in a world where every GPIO call raises, \<open>main\<close> still
  starts the preview and reads the command \<^verbatim>\<open>q\<close> from its input.
\<close>

theorem gpio_failure_counterexample:
  "fst (run_ops [GpioSetmode, GpioSetup 0, GpioAddEventDetect 0] no_gpio_world)
     = Some ExternalError \<and>
   fst (snd (main [Line ''q'', Line ''c''] no_gpio_world)) = [Line ''c''] \<and>
   Did (StartPreview QTGL) \<in> set (trace (snd (snd (main [Line ''q'', Line ''c''] no_gpio_world))))"
  by (simp add: eval_defs)

text \<open>
  C3, amended: if GPIO setup raises during construction, \<^verbatim>\<open>_setup_gpio\<close> catches the
  error and the constructor goes on to the camera initialization; when that succeeds, the
  constructor returns the controller, and \<open>main\<close> runs the interactive mode on it and
  then cleans up. A failing GPIO setup does not abort the process.
\<close>

theorem gpio_failure_not_fatal:
  "create_photos_dir ''photos'' w = (None, w1) \<and>
   run_ops [GpioSetmode, GpioSetup 0, GpioAddEventDetect 0] w1 = (Some e, w2) \<and>
   initialize_camera (1640, 1232) (4056, 3040) w2 = (Inr (pc, sc), w3)
   \<longrightarrow> PiCameraController 0 (1640, 1232) (4056, 3040) w = (Inr sample_controller, w3) \<and>
       main ins w =
         (case run_interactive_mode ins sample_controller w3 of
            (r, ins', camera', w4) \<Rightarrow> (None, ins', snd (cleanup camera' w4)))"
proof (intro impI, elim conjE)
  assume dir: "create_photos_dir ''photos'' w = (None, w1)"
    and gpio: "run_ops [GpioSetmode, GpioSetup 0, GpioAddEventDetect 0] w1 = (Some e, w2)"
    and init: "initialize_camera (1640, 1232) (4056, 3040) w2 = (Inr (pc, sc), w3)"
  from gpio have g: "setup_gpio 0 w1 = w2"
    unfolding setup_gpio_def by (simp only: prod.case option.case)
  from init have cfgs:
    "pc = \<lparr>main_size = (1640, 1232), lores = Some ((640, 480), ''YUV420''), buffer_count = None\<rparr>"
    "sc = \<lparr>main_size = (4056, 3040), lores = None, buffer_count = Some 1\<rparr>"
    by (auto simp: initialize_camera_def split: prod.splits option.splits simp del: run_ops.simps)
  have ctor: "PiCameraController 0 (1640, 1232) (4056, 3040) w = (Inr sample_controller, w3)"
    using init cfgs by (simp add: PiCameraController_def dir g sample_controller_def)
  have "main ins w =
         (case run_interactive_mode ins sample_controller w3 of
            (r, ins', camera', w4) \<Rightarrow> (None, ins', snd (cleanup camera' w4)))"
    by (simp add: main_def ctor main_handlers_None split: prod.splits option.splits)
  with ctor show "PiCameraController 0 (1640, 1232) (4056, 3040) w = (Inr sample_controller, w3) \<and>
       main ins w =
         (case run_interactive_mode ins sample_controller w3 of
            (r, ins', camera', w4) \<Rightarrow> (None, ins', snd (cleanup camera' w4)))" by simp
qed

theorem gpio_failure_not_fatal_witness:
  "create_photos_dir ''photos'' no_gpio_world = (None, no_gpio_world) \<and>
   fst (run_ops [GpioSetmode, GpioSetup 0, GpioAddEventDetect 0] no_gpio_world)
     = Some ExternalError \<and>
   fst (PiCameraController 0 (1640, 1232) (4056, 3040) no_gpio_world) = Inr sample_controller \<and>
   fst (snd (main [Line ''q''] no_gpio_world)) = []"
proof -
  let ?g = "run_ops [GpioSetmode, GpioSetup 0, GpioAddEventDetect 0] no_gpio_world"
  let ?i = "initialize_camera (1640, 1232) (4056, 3040) (snd ?g)"
  have dir: "create_photos_dir ''photos'' no_gpio_world = (None, no_gpio_world)"
    by (simp add: eval_defs)
  have g1: "fst ?g = Some ExternalError" by (simp add: eval_defs)
  then have gpio: "?g = (Some ExternalError, snd ?g)" by (metis prod.collapse)
  have "fst ?i = Inr (preview_config sample_controller, still_config sample_controller)"
    by (simp add: eval_defs)
  then have init: "?i = (Inr (preview_config sample_controller, still_config sample_controller), snd ?i)"
    by (metis prod.collapse)
  from gpio_failure_not_fatal
    [of no_gpio_world no_gpio_world ExternalError "snd ?g"
        "preview_config sample_controller" "still_config sample_controller" "snd ?i"
        "[Line ''q'']"] dir gpio init
  have c: "PiCameraController 0 (1640, 1232) (4056, 3040) no_gpio_world
           = (Inr sample_controller, snd ?i)"
    by blast
  have "fst (snd (main [Line ''q''] no_gpio_world)) = []" by (simp add: eval_defs)
  with dir g1 c show ?thesis by simp
qed

section \<open>Taking a photo\<close>

text \<open>
  C5: whatever happens inside \<^verbatim>\<open>capture_photo\<close> (a path is returned, the file is
  missing, a device call raises), the flag \<open>preview_active\<close> has on return the value it
  had before the call.
\<close>

theorem capture_photo_keeps_preview_flag:
  "preview_active (fst (snd (capture_photo c w))) = preview_active c"
  by (simp add: capture_photo_def Let_def split: prod.splits option.splits
      del: run_ops.simps)

text \<open>
  C2, as stated: after every successful \<^verbatim>\<open>capture_photo\<close> the applied configuration
  is the one applied before the call, also when the call starts in the preview
  configuration with preview off. There it is not: the capture succeeds and leaves the
  still profile applied.
\<close>

theorem capture_photo_configuration_counterexample:
  "applied (snd preview_stopped) = Some (preview_config (fst preview_stopped)) \<and>
   \<not> preview_active (fst preview_stopped) \<and>
   fst (capture_photo (fst preview_stopped) (snd preview_stopped))
     = Some ''photos/photo_20240131_093005.jpg'' \<and>
   applied (snd (snd (capture_photo (fst preview_stopped) (snd preview_stopped))))
     \<noteq> applied (snd preview_stopped)"
  by (simp add: eval_defs)

text \<open>
  C2, amended: a successful \<^verbatim>\<open>capture_photo\<close> leaves the applied configuration as it
  was before the call when the call starts in the preview configuration with preview on,
  or in a configuration whose resolution is the still profile's; when it starts in a
  configuration of another resolution with preview off, it leaves the still profile
  applied.
\<close>

theorem capture_photo_restores_configuration:
  "capture_photo c w = (Some path, c', w') \<longrightarrow>
     (applied w = Some (preview_config c) \<and> preview_active c \<longrightarrow> applied w' = applied w) \<and>
     (\<forall>cur. applied w = Some cur \<and> main_size cur = main_size (still_config c)
        \<longrightarrow> applied w' = applied w) \<and>
     (\<forall>cur. applied w = Some cur \<and> main_size cur \<noteq> main_size (still_config c)
            \<and> \<not> preview_active c
        \<longrightarrow> applied w' = Some (still_config c))"
proof
  assume cap: "capture_photo c w = (Some path, c', w')"
  show "(applied w = Some (preview_config c) \<and> preview_active c \<longrightarrow> applied w' = applied w) \<and>
     (\<forall>cur. applied w = Some cur \<and> main_size cur = main_size (still_config c)
        \<longrightarrow> applied w' = applied w) \<and>
     (\<forall>cur. applied w = Some cur \<and> main_size cur \<noteq> main_size (still_config c)
            \<and> \<not> preview_active c
        \<longrightarrow> applied w' = Some (still_config c))"
  proof (cases c w rule: capture_photo_cases)
    case refused
    with cap show ?thesis by simp
  next
    case unconfigured
    with cap show ?thesis by simp
  next
    case (ran cur r w2)
    from ran(3) cap have r: "r = None" and w2: "w2 = w'" by (auto split: if_splits)
    from run_ops_ok [OF ran(2) [unfolded r]] w2
    have "applied w' =
      (if main_size cur \<noteq> main_size (still_config c)
       then (if preview_active c then Some (preview_config c) else Some (still_config c))
       else applied (perform CameraConfiguration w))"
      by (simp only: applied_after_capture_ops)
    with ran(1) show ?thesis by (auto simp: applied_perform)
  qed
qed

theorem capture_photo_restores_configuration_witness:
  "fst (capture_photo (fst previewing) (snd previewing))
     = Some ''photos/photo_20240131_093005.jpg'' \<and>
   applied (snd previewing) = Some (preview_config (fst previewing)) \<and>
   preview_active (fst previewing) \<and>
   applied (snd (snd (capture_photo (fst previewing) (snd previewing))))
     = applied (snd previewing) \<and>
   fst (capture_photo (fst preview_stopped) (snd preview_stopped))
     = Some ''photos/photo_20240131_093005.jpg'' \<and>
   applied (snd (snd (capture_photo (fst preview_stopped) (snd preview_stopped))))
     = Some (still_config (fst preview_stopped))"
proof -
  let ?on = "capture_photo (fst previewing) (snd previewing)"
  let ?off = "capture_photo (fst preview_stopped) (snd preview_stopped)"
  have on1: "fst ?on = Some ''photos/photo_20240131_093005.jpg''" by (simp add: eval_defs)
  then have on: "?on = (Some ''photos/photo_20240131_093005.jpg'', fst (snd ?on), snd (snd ?on))"
    by (metis prod.collapse)
  have off1: "fst ?off = Some ''photos/photo_20240131_093005.jpg''" by (simp add: eval_defs)
  then have off: "?off = (Some ''photos/photo_20240131_093005.jpg'', fst (snd ?off), snd (snd ?off))"
    by (metis prod.collapse)
  have pre: "applied (snd previewing) = Some (preview_config (fst previewing))"
    "preview_active (fst previewing)"
    by (simp_all add: eval_defs)
  have pre2: "applied (snd preview_stopped) = Some (preview_config (fst preview_stopped))"
    "main_size (preview_config (fst preview_stopped)) \<noteq> main_size (still_config (fst preview_stopped))"
    "\<not> preview_active (fst preview_stopped)"
    by (simp_all add: eval_defs)
  from capture_photo_restores_configuration
    [of "fst previewing" "snd previewing" "''photos/photo_20240131_093005.jpg''"
        "fst (snd ?on)" "snd (snd ?on)"] on pre
  have a: "applied (snd (snd ?on)) = applied (snd previewing)" by simp
  from capture_photo_restores_configuration
    [of "fst preview_stopped" "snd preview_stopped" "''photos/photo_20240131_093005.jpg''"
        "fst (snd ?off)" "snd (snd ?off)"] off pre2
  have b: "applied (snd (snd ?off)) = Some (still_config (fst preview_stopped))" by simp
  show ?thesis using on1 off1 pre a b by simp
qed

section \<open>Starting and stopping the preview\<close>

text \<open>
  C6, as stated: for every session state, two calls of \<^verbatim>\<open>start_preview\<close> in a row give
  the observable state of one call, and likewise for \<^verbatim>\<open>stop_preview\<close>. A device call
  that raises in the first call only breaks both: the first call leaves the flags as they
  were, the second one completes.
\<close>

theorem preview_idempotence_counterexample:
  "fst (PiCameraController 0 (1640, 1232) (4056, 3040) (glitch_world 7))
     = Inr sample_controller \<and>
   observable (case start_preview sample_controller (constructed_in (glitch_world 7)) of
                 (c1, w1) \<Rightarrow> start_preview c1 w1)
     \<noteq> observable (start_preview sample_controller (constructed_in (glitch_world 7))) \<and>
   fst (PiCameraController 0 (1640, 1232) (4056, 3040) (glitch_world 9))
     = Inr sample_controller \<and>
   observable (case start_preview sample_controller (constructed_in (glitch_world 9)) of
                 (c0, w0) \<Rightarrow> (case stop_preview c0 w0 of (c1, w1) \<Rightarrow> stop_preview c1 w1))
     \<noteq> observable (case start_preview sample_controller (constructed_in (glitch_world 9)) of
                 (c0, w0) \<Rightarrow> stop_preview c0 w0)"
  by (simp add: eval_defs)

text \<open>
  C6, amended: when no device call raises during the first \<^verbatim>\<open>start_preview\<close>, a second
  call changes nothing (no flag, no device state, no further device call), and likewise
  for \<^verbatim>\<open>stop_preview\<close>.
\<close>

theorem preview_calls_idempotent_without_errors:
  "(\<not> list_ex failed (new_events w (snd (start_preview c w))) \<longrightarrow>
      (case start_preview c w of (c1, w1) \<Rightarrow> start_preview c1 w1 = (c1, w1))) \<and>
   (\<not> list_ex failed (new_events w (snd (stop_preview c w))) \<longrightarrow>
      (case stop_preview c w of (c1, w1) \<Rightarrow> stop_preview c1 w1 = (c1, w1)))"
proof (intro conjI impI)
  assume quiet: "\<not> list_ex failed (new_events w (snd (start_preview c w)))"
  show "case start_preview c w of (c1, w1) \<Rightarrow> start_preview c1 w1 = (c1, w1)"
  proof (cases "preview_active c")
    case True
    then show ?thesis by (simp add: start_preview_def)
  next
    case False
    obtain r w' where run:
      "run_ops [Configure (preview_config c), StartPreview QTGL, Start] w = (r, w')"
      by (cases "run_ops [Configure (preview_config c), StartPreview QTGL, Start] w")
    from run False have "snd (start_preview c w) = w'"
      by (cases r) (simp_all add: start_preview_def del: run_ops.simps)
    with quiet run_ops_failed [OF run] have "r = None" by simp
    with run False show ?thesis by (simp add: start_preview_def del: run_ops.simps)
  qed
next
  assume quiet: "\<not> list_ex failed (new_events w (snd (stop_preview c w)))"
  show "case stop_preview c w of (c1, w1) \<Rightarrow> stop_preview c1 w1 = (c1, w1)"
  proof (cases "preview_active c")
    case False
    then show ?thesis by (simp add: stop_preview_def)
  next
    case True
    obtain r w' where run: "run_ops [StopPreview, Stop] w = (r, w')"
      by (cases "run_ops [StopPreview, Stop] w")
    from run True have "snd (stop_preview c w) = w'"
      by (cases r) (simp_all add: stop_preview_def del: run_ops.simps)
    with quiet run_ops_failed [OF run] have "r = None" by simp
    with run True show ?thesis by (simp add: stop_preview_def del: run_ops.simps)
  qed
qed

theorem preview_calls_idempotent_without_errors_witness:
  "\<not> list_ex failed (new_events (constructed_in quiet_world) (snd previewing)) \<and>
   observable (case previewing of (c1, w1) \<Rightarrow> start_preview c1 w1) = observable previewing \<and>
   \<not> list_ex failed (new_events (snd previewing) (snd preview_stopped)) \<and>
   observable (case preview_stopped of (c1, w1) \<Rightarrow> stop_preview c1 w1)
     = observable preview_stopped"
proof -
  have q1: "\<not> list_ex failed (new_events (constructed_in quiet_world)
              (snd (start_preview sample_controller (constructed_in quiet_world))))"
    by (simp add: eval_defs)
  have q2: "\<not> list_ex failed (new_events (snd previewing)
              (snd (stop_preview (fst previewing) (snd previewing))))"
    by (simp add: eval_defs)
  from conjunct1 [OF preview_calls_idempotent_without_errors
                       [of "constructed_in quiet_world" sample_controller]] q1
  have "case start_preview sample_controller (constructed_in quiet_world) of
          (c1, w1) \<Rightarrow> start_preview c1 w1 = (c1, w1)"
    by (rule mp)
  then have a: "(case previewing of (c1, w1) \<Rightarrow> start_preview c1 w1) = previewing"
    by (simp add: previewing_def split: prod.splits)
  from conjunct2 [OF preview_calls_idempotent_without_errors
                       [of "snd previewing" "fst previewing"]] q2
  have "case stop_preview (fst previewing) (snd previewing) of
          (c1, w1) \<Rightarrow> stop_preview c1 w1 = (c1, w1)"
    by (rule mp)
  then have b: "(case preview_stopped of (c1, w1) \<Rightarrow> stop_preview c1 w1) = preview_stopped"
    by (simp add: preview_stopped_def split: prod.splits)
  have q1': "\<not> list_ex failed (new_events (constructed_in quiet_world) (snd previewing))"
    unfolding previewing_def by (rule q1)
  have q2': "\<not> list_ex failed (new_events (snd previewing) (snd preview_stopped))"
    unfolding preview_stopped_def by (rule q2)
  show ?thesis using q1' q2' a b by simp
qed

section \<open>The result of a capture\<close>

lemma command_c: "strip (lower ''c'') = ''c''"
  by (simp add: strip_def lower_def lower_char_def is_space_def)

lemma command_loop_capture:
  "is_running c \<Longrightarrow> capture_photo c w = (r, c', w') \<Longrightarrow>
   command_loop (Line ''c'' # ins) c w = command_loop ins c' w'"
  by (simp add: command_c)

text \<open>
  C9, as stated: \<^verbatim>\<open>capture_photo\<close> returns the path of the output file if and only if
  the file exists after the capture step. With preview on, a device call that raises
  during the switch back to the preview profile comes after the still was written: the
  file exists and the method returns \<^verbatim>\<open>None\<close>.
\<close>

theorem capture_photo_result_counterexample:
  "preview_active (fst interrupted) \<and>
   new_events (snd interrupted) (snd (snd (capture_photo (fst interrupted) (snd interrupted))))
     = [Did CameraConfiguration, Did StopPreview, Did Stop,
        Did (Configure (still_config sample_controller)), Did Start, Did (StartPreview QTGL),
        Did (Sleep 1), Did (CaptureFile ''photos/photo_20240131_093005.jpg''),
        Failed StopPreview] \<and>
   ''photos/photo_20240131_093005.jpg''
     \<in> paths (snd (snd (capture_photo (fst interrupted) (snd interrupted)))) \<and>
   fst (capture_photo (fst interrupted) (snd interrupted)) = None"
  by (simp add: eval_defs)

text \<open>
  C9, amended: \<^verbatim>\<open>capture_photo\<close> returns the path of the output file exactly when no
  device call raised during the whole call, the device had a configuration to report and
  the file exists when it is checked; in every other case (the file was not produced, a
  device call raised before or after the capture step) it returns \<^verbatim>\<open>None\<close>. The method
  has no other outcome: every \<^verbatim>\<open>Exception\<close> is caught inside it. The \<^verbatim>\<open>is_running\<close>
  flag is unchanged, so the command loop, having read \<^verbatim>\<open>c\<close>, goes on with the next
  input whatever the result was.
\<close>

theorem capture_photo_result:
  "capture_photo c w = (r, c', w') \<longrightarrow>
     (r = Some (photos_dir c @ ''/photo_'' @ strftime ''%Y%m%d_%H%M%S'' (now w) @ ''.jpg'') \<longleftrightarrow>
        \<not> list_ex failed (new_events w w') \<and> applied w \<noteq> None \<and>
        photos_dir c @ ''/photo_'' @ strftime ''%Y%m%d_%H%M%S'' (now w) @ ''.jpg'' \<in> paths w') \<and>
     (r = None \<or> r = Some (photos_dir c @ ''/photo_'' @ strftime ''%Y%m%d_%H%M%S'' (now w) @ ''.jpg'')) \<and>
     (is_running c \<longrightarrow>
        is_running c' \<and> command_loop (Line ''c'' # ins) c w = command_loop ins c' w')"
proof
  let ?fn = "photos_dir c @ ''/photo_'' @ strftime ''%Y%m%d_%H%M%S'' (now w) @ ''.jpg''"
  assume cap: "capture_photo c w = (r, c', w')"
  have loop: "is_running c \<longrightarrow>
        is_running c' \<and> command_loop (Line ''c'' # ins) c w = command_loop ins c' w'"
    using capture_photo_controller [of c w] command_loop_capture [OF _ cap] cap by simp
  have res: "(r = Some ?fn \<longleftrightarrow>
        \<not> list_ex failed (new_events w w') \<and> applied w \<noteq> None \<and> ?fn \<in> paths w') \<and>
     (r = None \<or> r = Some ?fn)"
  proof (cases c w rule: capture_photo_cases)
    case refused
    with cap have "r = None" "trace w' = trace w @ [Failed CameraConfiguration]" by auto
    then show ?thesis by simp
  next
    case unconfigured
    with cap show ?thesis by simp
  next
    case (ran cur r0 w2)
    from ran(3) cap have w2: "w2 = w'"
      and r: "r = (if r0 = None \<and> ?fn \<in> paths w' then Some ?fn else None)" by auto
    from run_ops_events [OF ran(2)] w2 obtain es where
      es: "trace w' = trace (perform CameraConfiguration w) @ es"
          "r0 = None \<longrightarrow> es = map Did
             ((if main_size cur \<noteq> main_size (still_config c) then switch_to_still c else [])
              @ [CaptureFile ?fn]
              @ (if main_size cur \<noteq> main_size (still_config c) \<and> preview_active c
                 then return_to_preview c else []))"
          "r0 \<noteq> None \<longrightarrow> list_ex failed es"
      by blast
    from es(1) have "trace w' = trace w @ Did CameraConfiguration # es" by simp
    then have "new_events w w' = Did CameraConfiguration # es" by (rule new_events_append)
    then have "list_ex failed (new_events w w') = list_ex failed es" by simp
    moreover have "list_ex failed es = (r0 \<noteq> None)"
    proof (cases r0)
      case None
      with es(2) show ?thesis by (simp del: map_append)
    next
      case (Some e)
      with es(3) show ?thesis by simp
    qed
    ultimately show ?thesis using r ran(1) by auto
  qed
  from res loop show "(r = Some ?fn \<longleftrightarrow>
        \<not> list_ex failed (new_events w w') \<and> applied w \<noteq> None \<and> ?fn \<in> paths w') \<and>
     (r = None \<or> r = Some ?fn) \<and>
     (is_running c \<longrightarrow>
        is_running c' \<and> command_loop (Line ''c'' # ins) c w = command_loop ins c' w')"
    by blast
qed

theorem capture_photo_result_witness:
  "is_running (fst previewing) \<and>
   fst (capture_photo (fst previewing) (snd previewing))
     = Some ''photos/photo_20240131_093005.jpg'' \<and>
   \<not> list_ex failed (new_events (snd previewing)
         (snd (snd (capture_photo (fst previewing) (snd previewing))))) \<and>
   ''photos/photo_20240131_093005.jpg''
     \<in> paths (snd (snd (capture_photo (fst previewing) (snd previewing)))) \<and>
   is_running (fst (snd (capture_photo (fst previewing) (snd previewing)))) \<and>
   command_loop [Line ''c'', Line ''q''] (fst previewing) (snd previewing)
     = command_loop [Line ''q'']
         (fst (snd (capture_photo (fst previewing) (snd previewing))))
         (snd (snd (capture_photo (fst previewing) (snd previewing))))"
proof -
  let ?cap = "capture_photo (fst previewing) (snd previewing)"
  have run: "is_running (fst previewing)" by (simp add: eval_defs)
  have name: "photos_dir (fst previewing) @ ''/photo_'' @ strftime ''%Y%m%d_%H%M%S'' (now (snd previewing)) @ ''.jpg''
      = ''photos/photo_20240131_093005.jpg''"
    by (simp add: eval_defs)
  have r: "fst ?cap = Some ''photos/photo_20240131_093005.jpg''" by (simp add: eval_defs)
  then have cap: "?cap = (Some ''photos/photo_20240131_093005.jpg'', fst (snd ?cap), snd (snd ?cap))"
    by (metis prod.collapse)
  from capture_photo_result
    [of "fst previewing" "snd previewing" "Some ''photos/photo_20240131_093005.jpg''"
        "fst (snd ?cap)" "snd (snd ?cap)" "[Line ''q'']"] cap
  have "(Some ''photos/photo_20240131_093005.jpg''
           = Some (photos_dir (fst previewing) @ ''/photo_'' @ strftime ''%Y%m%d_%H%M%S'' (now (snd previewing)) @ ''.jpg'')
         \<longleftrightarrow> \<not> list_ex failed (new_events (snd previewing) (snd (snd ?cap))) \<and>
             applied (snd previewing) \<noteq> None \<and>
             photos_dir (fst previewing) @ ''/photo_'' @ strftime ''%Y%m%d_%H%M%S'' (now (snd previewing)) @ ''.jpg''
               \<in> paths (snd (snd ?cap)))"
    and "is_running (fst previewing) \<longrightarrow> is_running (fst (snd ?cap)) \<and>
         command_loop (Line ''c'' # [Line ''q'']) (fst previewing) (snd previewing)
           = command_loop [Line ''q''] (fst (snd ?cap)) (snd (snd ?cap))"
    by blast+
  with run r show ?thesis unfolding name by simp
qed

section \<open>The running flag\<close>

text \<open>
  C10: \<^verbatim>\<open>stop_preview\<close> leaves \<^verbatim>\<open>is_running\<close> as it is, so in a running session a
  button press after \<^verbatim>\<open>stop_preview\<close> still calls \<^verbatim>\<open>capture_photo\<close>. No method but
  \<^verbatim>\<open>cleanup\<close> turns a true flag false (\<^verbatim>\<open>start_preview\<close>, \<^verbatim>\<open>capture_photo\<close> and the
  button callback keep it), and when the command loop ends with the flag turned off, the
  last input it read was a keyboard interrupt or the command \<^verbatim>\<open>q\<close>.
\<close>

theorem stop_preview_keeps_running:
  "is_running (fst (stop_preview c w)) = is_running c \<and>
   (is_running c \<longrightarrow>
      button_pressed (fst (stop_preview c w)) (snd (stop_preview c w))
        = snd (capture_photo (fst (stop_preview c w)) (snd (stop_preview c w)))) \<and>
   (is_running c \<longrightarrow>
      is_running (fst (start_preview c w)) \<and> is_running (fst (snd (capture_photo c w))) \<and>
      is_running (fst (button_pressed c w))) \<and>
   \<not> is_running (fst (cleanup c w)) \<and>
   (command_loop ins c w = (r, ins', c', w') \<and> is_running c \<and> \<not> is_running c' \<longrightarrow>
      (\<exists>used. ins = used @ ins' \<and> used \<noteq> [] \<and>
         (last used = CtrlC \<or> (\<exists>l. last used = Line l \<and> strip (lower l) = ''q''))))"
proof (intro conjI impI)
  show "is_running (fst (stop_preview c w)) = is_running c"
    by (rule stop_preview_running)
next
  assume "is_running c"
  then have "is_running (fst (stop_preview c w))" by (simp add: stop_preview_running)
  then show "button_pressed (fst (stop_preview c w)) (snd (stop_preview c w))
        = snd (capture_photo (fst (stop_preview c w)) (snd (stop_preview c w)))"
    by (simp add: button_pressed_def split: prod.splits)
next
  assume "is_running c"
  then show "is_running (fst (start_preview c w))" by (rule start_preview_running)
next
  assume "is_running c"
  then show "is_running (fst (snd (capture_photo c w)))" by (simp add: capture_photo_controller)
next
  assume "is_running c"
  then show "is_running (fst (button_pressed c w))" by (simp add: button_pressed_running)
next
  show "\<not> is_running (fst (cleanup c w))" by (rule cleanup_not_running)
next
  assume "command_loop ins c w = (r, ins', c', w') \<and> is_running c \<and> \<not> is_running c'"
  then show "\<exists>used. ins = used @ ins' \<and> used \<noteq> [] \<and>
         (last used = CtrlC \<or> (\<exists>l. last used = Line l \<and> strip (lower l) = ''q''))"
    using command_loop_stops by blast
qed

theorem stop_preview_keeps_running_witness:
  "is_running (fst previewing) \<and>
   is_running (fst preview_stopped) \<and>
   button_pressed (fst preview_stopped) (snd preview_stopped)
     = snd (capture_photo (fst preview_stopped) (snd preview_stopped)) \<and>
   is_running (fst (snd (capture_photo (fst previewing) (snd previewing)))) \<and>
   command_loop [Line ''s'', Line ''Q '', Line ''c''] (fst previewing) (snd previewing)
     = (None, [Line ''c''], (fst previewing)\<lparr>is_running := False\<rparr>, snd previewing) \<and>
   (\<exists>used. [Line ''s'', Line ''Q '', Line ''c''] = used @ [Line ''c''] \<and> used \<noteq> [] \<and>
      (last used = CtrlC \<or> (\<exists>l. last used = Line l \<and> strip (lower l) = ''q'')))"
proof -
  have run: "is_running (fst previewing)" by (simp add: eval_defs)
  have loop: "command_loop [Line ''s'', Line ''Q '', Line ''c''] (fst previewing) (snd previewing)
     = (None, [Line ''c''], (fst previewing)\<lparr>is_running := False\<rparr>, snd previewing)"
    using run by (simp add: lower_def strip_def lower_char_def is_space_def)
  have off: "\<not> is_running ((fst previewing)\<lparr>is_running := False\<rparr>)" by simp
  note t = stop_preview_keeps_running
    [of "fst previewing" "snd previewing" "[Line ''s'', Line ''Q '', Line ''c'']" None
        "[Line ''c'']" "(fst previewing)\<lparr>is_running := False\<rparr>" "snd previewing"]
  from t run have a: "is_running (fst preview_stopped)"
    by (simp add: preview_stopped_def)
  from t run have b: "button_pressed (fst preview_stopped) (snd preview_stopped)
     = snd (capture_photo (fst preview_stopped) (snd preview_stopped))"
    by (simp add: preview_stopped_def)
  from t run have c: "is_running (fst (snd (capture_photo (fst previewing) (snd previewing))))"
    by simp
  from t run loop off have d: "\<exists>used. [Line ''s'', Line ''Q '', Line ''c''] = used @ [Line ''c''] \<and>
      used \<noteq> [] \<and>
      (last used = CtrlC \<or> (\<exists>l. last used = Line l \<and> strip (lower l) = ''q''))"
    by blast
  from run a b c loop d show ?thesis by blast
qed

section \<open>Reachable sessions\<close>

lemma run_ops_applied:
  "run_ops xs w = (r, w') \<Longrightarrow> OpenCamera \<notin> set xs \<Longrightarrow>
   applied w' = applied w \<or> (\<exists>cfg. Configure cfg \<in> set xs \<and> applied w' = Some cfg)"
proof (induction xs arbitrary: w)
  case Nil
  then show ?case by simp
next
  case (Cons x xs)
  from ext_call_cases [of x w] show ?case
  proof
    assume "ext_call x w = (Some ExternalError, refuse x w)"
    with Cons.prems show ?thesis by auto
  next
    assume ok: "ext_call x w = (None, perform x w)"
    with Cons.prems have run: "run_ops xs (perform x w) = (r, w')" and "OpenCamera \<notin> set xs"
      by simp_all
    from Cons.IH [OF this]
    have "applied w' = applied (perform x w) \<or>
          (\<exists>cfg. Configure cfg \<in> set xs \<and> applied w' = Some cfg)" .
    moreover have "applied (perform x w) = applied w \<or>
          (\<exists>cfg. x = Configure cfg \<and> applied (perform x w) = Some cfg)"
      using Cons.prems(2) by (cases x) (simp_all add: applied_perform)
    ultimately show ?thesis by auto
  qed
qed

lemma constructed:
  assumes "PiCameraController pin psize ssize w0 = (Inr c0, w1)"
  shows "photos_dir c0 = ''photos'' \<and> main_size (preview_config c0) = psize \<and>
         main_size (still_config c0) = ssize \<and> session_inv c0 w1"
proof -
  from assms obtain wa pc sc where
    init: "initialize_camera psize ssize wa = (Inr (pc, sc), w1)"
    and fields: "photos_dir c0 = ''photos''" "\<not> is_running c0"
      "preview_config c0 = pc" "still_config c0 = sc"
    by (auto simp: PiCameraController_def split: prod.splits option.splits sum.splits)
  from init have run:
    "run_ops [OpenCamera, CreatePreviewConfiguration psize, CreateStillConfiguration ssize] wa
       = (None, w1)"
    and sizes: "main_size pc = psize" "main_size sc = ssize"
    by (auto simp: initialize_camera_def split: prod.splits option.splits
        simp del: run_ops.simps)
  from run_ops_ok [OF run] have "applied w1 = None" by (simp add: applied_perform)
  with fields sizes show ?thesis by (simp add: session_inv_def)
qed

lemma start_preview_inv:
  assumes "start_preview c w = (c', w')" "session_inv c w"
  shows "session_inv c' w' \<and> c' = c\<lparr>is_running := is_running c', preview_active := preview_active c'\<rparr>"
proof (cases "preview_active c")
  case True
  with assms show ?thesis by (simp add: start_preview_def)
next
  case False
  obtain r wa where run:
    "run_ops [Configure (preview_config c), StartPreview QTGL, Start] w = (r, wa)"
    by (metis surj_pair)
  show ?thesis
  proof (cases r)
    case None
    from run_ops_ok [OF run [unfolded None]]
    have "applied wa = Some (preview_config c)" by (simp add: applied_perform)
    with assms False run None show ?thesis
      by (auto simp: start_preview_def session_inv_def simp del: run_ops.simps)
  next
    case (Some e)
    from run_ops_applied [OF run]
    have "applied wa = applied w \<or> applied wa = Some (preview_config c)" by auto
    with assms False run Some show ?thesis
      by (auto simp: start_preview_def session_inv_def simp del: run_ops.simps
          split: option.splits)
  qed
qed

lemma stop_preview_inv:
  assumes "stop_preview c w = (c', w')" "session_inv c w"
  shows "session_inv c' w' \<and> c' = c\<lparr>is_running := is_running c', preview_active := preview_active c'\<rparr>"
proof (cases "preview_active c")
  case False
  with assms show ?thesis by (simp add: stop_preview_def)
next
  case True
  obtain r wa where run: "run_ops [StopPreview, Stop] w = (r, wa)"
    by (metis surj_pair)
  from run_ops_applied [OF run] have "applied wa = applied w" by auto
  with assms True run show ?thesis
    by (cases r) (auto simp: stop_preview_def session_inv_def simp del: run_ops.simps
        split: option.splits)
qed

lemma capture_photo_inv:
  assumes "capture_photo c w = (r, c', w')" "session_inv c w"
  shows "session_inv c' w' \<and> c' = c"
proof (cases c w rule: capture_photo_cases)
  case refused
  with assms show ?thesis by (auto simp: session_inv_def)
next
  case unconfigured
  with assms show ?thesis by (auto simp: session_inv_def applied_perform)
next
  case (ran cur r0 w2)
  from run_ops_applied [OF ran(2)]
  have "applied w2 = applied w \<or> applied w2 = Some (still_config c)
        \<or> applied w2 = Some (preview_config c)"
    by (auto simp: applied_perform switch_to_still_def return_to_preview_def Let_def
        split: if_splits)
  with assms ran(1,3) show ?thesis by (auto simp: session_inv_def)
qed

lemma cleanup_inv:
  assumes "cleanup c w = (c', w')" "session_inv c w"
  shows "session_inv c' w' \<and> c' = c\<lparr>is_running := is_running c', preview_active := preview_active c'\<rparr>"
proof -
  let ?c1 = "c\<lparr>is_running := False\<rparr>"
  obtain c2 w2 where stop:
    "(if preview_active ?c1 then stop_preview ?c1 w else (?c1, w)) = (c2, w2)"
    by (metis surj_pair)
  have inv1: "session_inv ?c1 w" using assms(2) by (simp add: session_inv_def split: option.splits)
  have a: "session_inv c2 w2 \<and>
           c2 = ?c1\<lparr>is_running := is_running c2, preview_active := preview_active c2\<rparr>"
  proof (cases "preview_active ?c1")
    case True
    with stop have "stop_preview ?c1 w = (c2, w2)" by simp
    from stop_preview_inv [OF this inv1] show ?thesis .
  next
    case False
    with stop inv1 show ?thesis by auto
  qed
  obtain r wa where run:
    "run_ops ((if picam2 c2 then [Close] else []) @ [GpioCleanup]) w2 = (r, wa)"
    by (metis surj_pair)
  from run_ops_applied [OF run] have app: "applied wa = applied w2" by (auto split: if_splits)
  from assms(1) stop run have res: "c' = c2" "w' = wa"
    by (simp_all add: cleanup_def Let_def del: run_ops.simps)
  from a app res have "session_inv c' w'" by (simp add: session_inv_def)
  moreover from a res
  have "c' = c\<lparr>is_running := is_running c', preview_active := preview_active c'\<rparr>"
    by (metis (no_types) controller.surjective controller.update_convs(6,7))
  ultimately show ?thesis by simp
qed

lemma get_camera_info_inv:
  assumes "session_inv c w"
  shows "session_inv c (get_camera_info c w)"
proof -
  have "applied (get_camera_info c w) = applied w"
    using ext_call_cases [of CameraProperties w]
    by (auto simp: get_camera_info_def applied_perform)
  with assms show ?thesis by (simp add: session_inv_def)
qed

lemma command_loop_inv:
  "command_loop ins c w = (r, ins', c', w') \<Longrightarrow> session_inv c w \<Longrightarrow>
   session_inv c' w' \<and> c' = c\<lparr>is_running := is_running c', preview_active := preview_active c'\<rparr>"
proof (induction ins arbitrary: c w)
  case Nil
  then show ?case by (auto split: if_splits)
next
  case (Cons i rest)
  have off: "session_inv (c\<lparr>is_running := False\<rparr>) w"
    using Cons.prems(2) by (simp add: session_inv_def split: option.splits)
  show ?case
  proof (cases "is_running c")
    case False
    with Cons.prems show ?thesis by simp
  next
    case True
    show ?thesis
    proof (cases i)
      case CtrlC
      with True Cons.prems off show ?thesis by auto
    next
      case (Line l)
      show ?thesis
      proof (cases "strip (lower l) = ''c''")
        case isc: True
        obtain f c1 w1 where cap: "capture_photo c w = (f, c1, w1)"
          by (cases "capture_photo c w")
        from capture_photo_inv [OF cap Cons.prems(2)]
        have inv1: "session_inv c1 w1" and c1: "c1 = c" by blast+
        from Cons.prems(1) True Line isc cap
        have "command_loop rest c1 w1 = (r, ins', c', w')" by simp
        from Cons.IH [OF this inv1] c1 show ?thesis by simp
      next
        case notc: False
        show ?thesis
        proof (cases "strip (lower l) = ''q''")
          case True
          with \<open>is_running c\<close> Line notc Cons.prems off show ?thesis
            by (auto simp: Let_def split: if_splits)
        next
          case False
          with \<open>is_running c\<close> Line notc Cons.prems(1)
          have "command_loop rest c w = (r, ins', c', w')"
            by (simp add: Let_def split: if_splits)
          from Cons.IH [OF this Cons.prems(2)] show ?thesis .
        qed
      qed
    qed
  qed
qed

lemma run_interactive_mode_inv:
  assumes "run_interactive_mode ins c w = (r, ins', c', w')" "session_inv c w"
  shows "session_inv c' w' \<and>
         c' = c\<lparr>is_running := is_running c', preview_active := preview_active c'\<rparr>"
proof -
  obtain c1 w1 where start: "start_preview c (get_camera_info c w) = (c1, w1)"
    by (metis surj_pair)
  from start_preview_inv [OF start get_camera_info_inv [OF assms(2)]]
  have inv1: "session_inv c1 w1"
    and c1: "c1 = c\<lparr>is_running := is_running c1, preview_active := preview_active c1\<rparr>"
    by simp_all
  from assms(1) start have "command_loop ins c1 w1 = (r, ins', c', w')"
    by (simp add: run_interactive_mode_def)
  from command_loop_inv [OF this inv1]
  have inv': "session_inv c' w'"
    and c': "c' = c1\<lparr>is_running := is_running c', preview_active := preview_active c'\<rparr>"
    by simp_all
  from c1 c' have "c' = c\<lparr>is_running := is_running c', preview_active := preview_active c'\<rparr>"
    by (metis (no_types) controller.surjective controller.update_convs(6,7))
  with inv' show ?thesis by simp
qed

text \<open>The loop on a longer input: when it has read \<open>pre\<close> and is still running, it goes on
  with the rest from the state it is in.\<close>

lemma command_loop_prefix:
  "command_loop pre c w = (Some e, ins', c', w') \<Longrightarrow>
   is_running c' \<and> ins' = [] \<and> command_loop (pre @ ins) c w = command_loop ins c' w'"
proof (induction pre arbitrary: c w)
  case Nil
  then show ?case by (auto split: if_splits)
next
  case (Cons i rest)
  from Cons.prems have run: "is_running c" by (auto split: if_splits)
  show ?case
  proof (cases i)
    case CtrlC
    with run Cons.prems show ?thesis by simp
  next
    case (Line l)
    show ?thesis
    proof (cases "strip (lower l) = ''c''")
      case True
      obtain f c1 w1 where cap: "capture_photo c w = (f, c1, w1)"
        by (cases "capture_photo c w")
      with run Line True Cons.prems
      have "command_loop rest c1 w1 = (Some e, ins', c', w')" by simp
      from Cons.IH [OF this] run Line True cap show ?thesis by simp
    next
      case notc: False
      show ?thesis
      proof (cases "strip (lower l) = ''q''")
        case True
        with run Line notc Cons.prems show ?thesis by (simp add: Let_def split: if_splits)
      next
        case False
        with run Line notc Cons.prems
        have "command_loop rest c w = (Some e, ins', c', w')"
          by (simp add: Let_def split: if_splits)
        from Cons.IH [OF this] run Line notc False show ?thesis
          by (simp add: Let_def)
      qed
    qed
  qed
qed

lemma call_method_inv:
  assumes "call_method m c w = (c', w')" "session_inv c w"
  shows "session_inv c' w' \<and> c' = c\<lparr>is_running := is_running c', preview_active := preview_active c'\<rparr>"
proof (cases m)
  case StartPreviewM
  with assms show ?thesis using start_preview_inv by simp
next
  case StopPreviewM
  with assms show ?thesis using stop_preview_inv by simp
next
  case CapturePhotoM
  with assms(1) obtain r where "capture_photo c w = (r, c', w')"
    by (cases "capture_photo c w") auto
  from capture_photo_inv [OF this assms(2)] show ?thesis by auto
next
  case ButtonPressedM
  show ?thesis
  proof (cases "is_running c")
    case True
    with ButtonPressedM assms(1) obtain r where "capture_photo c w = (r, c', w')"
      by (cases "capture_photo c w") (auto simp: button_pressed_def)
    from capture_photo_inv [OF this assms(2)] show ?thesis by auto
  next
    case False
    with ButtonPressedM assms show ?thesis by (auto simp: button_pressed_def)
  qed
next
  case GetCameraInfoM
  with assms get_camera_info_inv [OF assms(2)] show ?thesis by auto
next
  case (InteractiveM ins)
  with assms(1) obtain r ins' where "run_interactive_mode ins c w = (r, ins', c', w')"
    by (cases "run_interactive_mode ins c w") auto
  from run_interactive_mode_inv [OF this assms(2)] show ?thesis .
next
  case CleanupM
  with assms show ?thesis using cleanup_inv by simp
qed

lemma call_methods_inv:
  "call_methods ms c w = (c', w') \<Longrightarrow> session_inv c w \<Longrightarrow>
   session_inv c' w' \<and> c' = c\<lparr>is_running := is_running c', preview_active := preview_active c'\<rparr>"
proof (induction ms arbitrary: c w)
  case Nil
  then show ?case by simp
next
  case (Cons m ms)
  obtain c1 w1 where step: "call_method m c w = (c1, w1)" by (metis surj_pair)
  from call_method_inv [OF step Cons.prems(2)]
  have inv1: "session_inv c1 w1"
    and c1: "c1 = c\<lparr>is_running := is_running c1, preview_active := preview_active c1\<rparr>"
    by simp_all
  from Cons.prems(1) step have "call_methods ms c1 w1 = (c', w')" by simp
  from Cons.IH [OF this inv1]
  have inv': "session_inv c' w'"
    and c': "c' = c1\<lparr>is_running := is_running c', preview_active := preview_active c'\<rparr>"
    by simp_all
  from c1 c' have "c' = c\<lparr>is_running := is_running c', preview_active := preview_active c'\<rparr>"
    by (metis (no_types) controller.surjective controller.update_convs(6,7))
  with inv' show ?case by simp
qed

lemma reachable_session:
  assumes "PiCameraController pin psize ssize w0 = (Inr c0, w1)"
    and "call_methods calls c0 w1 = (c, w)"
  shows "session_inv c w \<and> photos_dir c = ''photos'' \<and>
         main_size (preview_config c) = psize \<and> main_size (still_config c) = ssize"
proof -
  from constructed [OF assms(1)] have c0: "photos_dir c0 = ''photos''"
    "main_size (preview_config c0) = psize" "main_size (still_config c0) = ssize"
    "session_inv c0 w1" by simp_all
  from call_methods_inv [OF assms(2) c0(4)] have inv: "session_inv c w"
    and c: "c = c0\<lparr>is_running := is_running c, preview_active := preview_active c\<rparr>"
    by simp_all
  from c have "photos_dir c = photos_dir c0" "preview_config c = preview_config c0"
    "still_config c = still_config c0"
    by (metis controller.select_convs controller.surjective controller.update_convs(6,7))+
  with c0 inv show ?thesis by simp
qed

lemma loop_state_reachable:
  "run_interactive_mode pre c0 w1 = (r, ins', c, w) \<Longrightarrow>
   call_methods [InteractiveM pre] c0 w1 = (c, w)"
  by simp

lemma run_interactive_mode_prefix:
  assumes "run_interactive_mode pre c0 w1 = (Some e, ins', c, w)"
  shows "is_running c \<and> ins' = [] \<and>
         run_interactive_mode (pre @ ins) c0 w1 = command_loop ins c w"
proof -
  obtain c1 wa where start: "start_preview c0 (get_camera_info c0 w1) = (c1, wa)"
    by (metis surj_pair)
  with assms have "command_loop pre c1 wa = (Some e, ins', c, w)"
    by (simp add: run_interactive_mode_def)
  from command_loop_prefix [OF this, of ins] start show ?thesis
    by (simp add: run_interactive_mode_def)
qed

text \<open>
  C4: take any session state that the methods of the class, called in any order, on any
  input and under any behaviour of the services, lead to from a constructed controller.
  When \<^verbatim>\<open>capture_photo\<close> returns from there, whatever its outcome, every configuration
  the device is in has the resolution of the preview profile or of the still profile (the
  two sizes given to the constructor), and in a running session the device does have a
  configuration. In particular, in the run of \<open>main\<close>: when the loop has read the input
  \<open>pre\<close> and is still running, the command \<^verbatim>\<open>c\<close> calls \<^verbatim>\<open>capture_photo\<close> in the
  state the loop is in, the loop goes on from the state the call leaves, and in that state
  the device has a configuration of one of the two resolutions.
\<close>

theorem capture_photo_resolution:
  "(PiCameraController pin psize ssize w0 = (Inr c0, w1) \<and>
    call_methods calls c0 w1 = (c, w) \<and>
    capture_photo c w = (r, c', w')
    \<longrightarrow> main_size (preview_config c) = psize \<and> main_size (still_config c) = ssize \<and>
        (\<forall>cfg. applied w' = Some cfg \<longrightarrow> main_size cfg = psize \<or> main_size cfg = ssize) \<and>
        (is_running c \<longrightarrow> applied w' \<noteq> None)) \<and>
   (PiCameraController pin psize ssize w0 = (Inr c0, w1) \<and>
    run_interactive_mode pre c0 w1 = (Some e, ins', c, w) \<and>
    capture_photo c w = (r, c', w')
    \<longrightarrow> run_interactive_mode (pre @ Line ''c'' # rest) c0 w1 = command_loop rest c' w' \<and>
        (\<exists>cfg. applied w' = Some cfg \<and> (main_size cfg = psize \<or> main_size cfg = ssize)))"
proof -
  have api: "main_size (preview_config c) = psize \<and> main_size (still_config c) = ssize \<and>
        (\<forall>cfg. applied w' = Some cfg \<longrightarrow> main_size cfg = psize \<or> main_size cfg = ssize) \<and>
        (is_running c \<longrightarrow> applied w' \<noteq> None)"
    if ctor: "PiCameraController pin psize ssize w0 = (Inr c0, w1)"
      and calls: "call_methods calls c0 w1 = (c, w)"
      and cap: "capture_photo c w = (r, c', w')"
    for calls c w
  proof -
    from reachable_session [OF ctor calls] have inv: "session_inv c w"
      and sizes: "main_size (preview_config c) = psize" "main_size (still_config c) = ssize"
      by simp_all
    from capture_photo_inv [OF cap inv] have "session_inv c w'" by auto
    with sizes show ?thesis by (auto simp: session_inv_def split: option.splits)
  qed
  have loop: "run_interactive_mode (pre @ Line ''c'' # rest) c0 w1 = command_loop rest c' w' \<and>
        (\<exists>cfg. applied w' = Some cfg \<and> (main_size cfg = psize \<or> main_size cfg = ssize))"
    if ctor: "PiCameraController pin psize ssize w0 = (Inr c0, w1)"
      and run: "run_interactive_mode pre c0 w1 = (Some e, ins', c, w)"
      and cap: "capture_photo c w = (r, c', w')"
  proof -
    from run_interactive_mode_prefix [OF run, of "Line ''c'' # rest"]
    have running: "is_running c"
      and "run_interactive_mode (pre @ Line ''c'' # rest) c0 w1
             = command_loop (Line ''c'' # rest) c w"
      by simp_all
    with command_loop_capture [OF running cap, of rest]
    have go: "run_interactive_mode (pre @ Line ''c'' # rest) c0 w1 = command_loop rest c' w'"
      by simp
    from api [OF ctor loop_state_reachable [OF run] cap] running
    obtain cfg where "applied w' = Some cfg" "main_size cfg = psize \<or> main_size cfg = ssize"
      by (cases "applied w'") auto
    with go show ?thesis by blast
  qed
  from api loop show ?thesis by blast
qed

lemma loop_start_run:
  "run_interactive_mode [] sample_controller (constructed_in quiet_world)
     = (Some EOFError, [], fst loop_start, snd loop_start)"
proof -
  let ?run = "run_interactive_mode [] sample_controller (constructed_in quiet_world)"
  have "fst ?run = Some EOFError" "fst (snd ?run) = []" by (simp_all add: eval_defs)
  moreover have "loop_start = snd (snd ?run)"
    by (simp add: loop_start_def split: prod.splits)
  ultimately show ?thesis by (metis prod.collapse)
qed

lemma sample_construction:
  "PiCameraController 0 (1640, 1232) (4056, 3040) quiet_world
     = (Inr sample_controller, constructed_in quiet_world)"
proof -
  have "fst (PiCameraController 0 (1640, 1232) (4056, 3040) quiet_world) = Inr sample_controller"
    by (simp add: eval_defs)
  then show ?thesis unfolding constructed_in_def by (metis prod.collapse)
qed

theorem capture_photo_resolution_witness:
  "fst (PiCameraController 0 (1640, 1232) (4056, 3040) quiet_world) = Inr sample_controller \<and>
   run_interactive_mode [] sample_controller (constructed_in quiet_world)
     = (Some EOFError, [], fst loop_start, snd loop_start) \<and>
   is_running (fst loop_start) \<and>
   (\<exists>cfg. applied (snd (snd (capture_photo (fst loop_start) (snd loop_start)))) = Some cfg \<and>
      (main_size cfg = (1640, 1232) \<or> main_size cfg = (4056, 3040))) \<and>
   run_interactive_mode [Line ''c'', Line ''q''] sample_controller (constructed_in quiet_world)
     = command_loop [Line ''q'']
         (fst (snd (capture_photo (fst loop_start) (snd loop_start))))
         (snd (snd (capture_photo (fst loop_start) (snd loop_start))))"
proof -
  let ?cap = "capture_photo (fst loop_start) (snd loop_start)"
  have ctor: "fst (PiCameraController 0 (1640, 1232) (4056, 3040) quiet_world)
      = Inr sample_controller"
    by (simp add: eval_defs)
  have running: "is_running (fst loop_start)" by (simp add: eval_defs)
  have cap: "?cap = (fst ?cap, fst (snd ?cap), snd (snd ?cap))" by simp
  have calls: "call_methods [InteractiveM []] sample_controller (constructed_in quiet_world)
      = (fst loop_start, snd loop_start)"
    by (simp add: loop_start_def)
  note t = capture_photo_resolution
    [of 0 "(1640, 1232)" "(4056, 3040)" quiet_world sample_controller
        "constructed_in quiet_world" "[InteractiveM []]" "fst loop_start" "snd loop_start"
        "fst ?cap" "fst (snd ?cap)" "snd (snd ?cap)" "[]" EOFError "[]" "[Line ''q'']"]
  from conjunct1 [OF t] sample_construction calls cap
  have "is_running (fst loop_start) \<longrightarrow> applied (snd (snd ?cap)) \<noteq> None" by blast
  with running have configured: "applied (snd (snd ?cap)) \<noteq> None" by simp
  from conjunct2 [OF t] sample_construction loop_start_run cap
  have "run_interactive_mode ([] @ Line ''c'' # [Line ''q'']) sample_controller
          (constructed_in quiet_world)
          = command_loop [Line ''q''] (fst (snd ?cap)) (snd (snd ?cap)) \<and>
        (\<exists>cfg. applied (snd (snd ?cap)) = Some cfg \<and>
           (main_size cfg = (1640, 1232) \<or> main_size cfg = (4056, 3040)))"
    by blast
  with ctor running loop_start_run show ?thesis by simp
qed

section \<open>The photo file and the switch to the still profile\<close>

lemma writes_of_capture_ops:
  "(written (fold perform ((if n then switch_to_still c else []) @ [CaptureFile f]
                        @ (if n \<and> preview_active c then return_to_preview c else [])) w)
      = written w @ [f] \<and>
    paths (fold perform ((if n then switch_to_still c else []) @ [CaptureFile f]
                        @ (if n \<and> preview_active c then return_to_preview c else [])) w)
      = insert f (paths w)) \<or>
   (written (fold perform ((if n then switch_to_still c else []) @ [CaptureFile f]
                        @ (if n \<and> preview_active c then return_to_preview c else [])) w)
      = written w \<and>
    paths (fold perform ((if n then switch_to_still c else []) @ [CaptureFile f]
                        @ (if n \<and> preview_active c then return_to_preview c else [])) w)
      = paths w)"
  by (simp add: switch_to_still_def return_to_preview_def paths_perform written_perform Let_def)

lemma captures_of_capture_ops:
  "filter is_capture (map Did ((if n then switch_to_still c else []) @ [CaptureFile f]
                        @ (if n \<and> preview_active c then return_to_preview c else [])))
   = [Did (CaptureFile f)]"
  by (simp add: switch_to_still_def return_to_preview_def Let_def)

text \<open>
  C8, as stated: every successful \<^verbatim>\<open>capture_photo\<close> writes exactly one output file.
  The method takes the existence of the file for success, so a file left by an earlier
  capture in the same second passes the check: in the run of \<open>main\<close> on \<^verbatim>\<open>c\<close>,
  \<^verbatim>\<open>c\<close> in a world whose second \<^verbatim>\<open>capture_file\<close> returns without writing, the second
  call returns the path and has written nothing.
\<close>

theorem capture_photo_file_counterexample:
  "fst (PiCameraController 0 (1640, 1232) (4056, 3040) tired_world) = Inr sample_controller \<and>
   clock_time (now (snd second_shot)) \<and>
   written (snd second_shot) = [''photos/photo_20240131_093005.jpg''] \<and>
   fst (capture_photo (fst second_shot) (snd second_shot))
     = Some ''photos/photo_20240131_093005.jpg'' \<and>
   written (snd (snd (capture_photo (fst second_shot) (snd second_shot))))
     = written (snd second_shot)"
  by (simp add: eval_defs clock_time_def)

text \<open>
  C8, amended: in a session constructed by \<open>PiCameraController\<close> (whatever was called on
  it since), a successful \<^verbatim>\<open>capture_photo\<close> made when the clock reads \<open>T\<close> returns the
  path \<^verbatim>\<open>photos/photo_<T as YYYYMMDD_HHMMSS>.jpg\<close>, makes exactly one \<^verbatim>\<open>capture_file\<close>
  call, to that path, and leaves the file system with that path added and nothing else
  changed. It has written exactly one file, that one, or none; none only when a file of
  that name was there before the call.
\<close>

theorem capture_photo_file:
  "PiCameraController pin psize ssize w0 = (Inr c0, w1) \<and>
   call_methods calls c0 w1 = (c, w) \<and>
   clock_time (now w) \<and>
   capture_photo c w = (Some path, c', w')
   \<longrightarrow> path = ''photos/photo_'' @ spec_timestamp (now w) @ ''.jpg'' \<and>
       filter is_capture (new_events w w') = [Did (CaptureFile path)] \<and>
       paths w' = insert path (paths w) \<and>
       (written w' = written w @ [path] \<or> written w' = written w \<and> path \<in> paths w)"
proof (intro impI, elim conjE)
  assume ctor: "PiCameraController pin psize ssize w0 = (Inr c0, w1)"
    and calls: "call_methods calls c0 w1 = (c, w)"
    and time: "clock_time (now w)"
    and cap: "capture_photo c w = (Some path, c', w')"
  from reachable_session [OF ctor calls] have dir: "photos_dir c = ''photos''" by simp
  show "path = ''photos/photo_'' @ spec_timestamp (now w) @ ''.jpg'' \<and>
       filter is_capture (new_events w w') = [Did (CaptureFile path)] \<and>
       paths w' = insert path (paths w) \<and>
       (written w' = written w @ [path] \<or> written w' = written w \<and> path \<in> paths w)"
  proof (cases c w rule: capture_photo_cases)
    case refused
    with cap show ?thesis by simp
  next
    case unconfigured
    with cap show ?thesis by simp
  next
    case (ran cur r w2)
    let ?n = "main_size cur \<noteq> main_size (still_config c)"
    let ?ops = "(if ?n then switch_to_still c else []) @ [CaptureFile path]
                @ (if ?n \<and> preview_active c then return_to_preview c else [])"
    from ran(3) cap dir have r: "r = None" and w2: "w2 = w'"
      and name: "path = ''photos/photo_'' @ strftime ''%Y%m%d_%H%M%S'' (now w) @ ''.jpg''"
      and there: "path \<in> paths w'"
      by (auto split: if_splits)
    from name strftime_spec [OF time]
    have path: "path = ''photos/photo_'' @ spec_timestamp (now w) @ ''.jpg''" by simp
    from ran(2) r w2 name dir
    have run: "run_ops ?ops (perform CameraConfiguration w) = (None, w')" by simp
    from run_ops_ok [OF run] have w': "w' = fold perform ?ops (perform CameraConfiguration w)" .
    from run_ops_trace [OF run]
    have "trace w' = trace w @ Did CameraConfiguration # map Did ?ops" by simp
    then have "new_events w w' = Did CameraConfiguration # map Did ?ops"
      by (rule new_events_append)
    then have one: "filter is_capture (new_events w w') = [Did (CaptureFile path)]"
      by (simp only: filter.simps is_capture.simps captures_of_capture_ops if_False)
    from writes_of_capture_ops [of ?n c path "perform CameraConfiguration w"] w'
    have "(written w' = written w @ [path] \<and> paths w' = insert path (paths w)) \<or>
          (written w' = written w \<and> paths w' = paths w)"
      by (simp add: paths_perform written_perform)
    with there have "paths w' = insert path (paths w) \<and>
       (written w' = written w @ [path] \<or> written w' = written w \<and> path \<in> paths w)"
      by auto
    with path one show ?thesis by simp
  qed
qed

theorem capture_photo_file_witness:
  "fst (PiCameraController 0 (1640, 1232) (4056, 3040) quiet_world) = Inr sample_controller \<and>
   clock_time (now (snd loop_start)) \<and>
   now (snd loop_start) = sample_time \<and>
   spec_timestamp sample_time = ''20240131_093005'' \<and>
   fst (capture_photo (fst loop_start) (snd loop_start))
     = Some ''photos/photo_20240131_093005.jpg'' \<and>
   filter is_capture (new_events (snd loop_start)
       (snd (snd (capture_photo (fst loop_start) (snd loop_start)))))
     = [Did (CaptureFile ''photos/photo_20240131_093005.jpg'')] \<and>
   paths (snd (snd (capture_photo (fst loop_start) (snd loop_start))))
     = insert ''photos/photo_20240131_093005.jpg'' (paths (snd loop_start)) \<and>
   written (snd (snd (capture_photo (fst loop_start) (snd loop_start))))
     = written (snd loop_start) @ [''photos/photo_20240131_093005.jpg'']"
proof -
  let ?cap = "capture_photo (fst loop_start) (snd loop_start)"
  let ?p = "''photos/photo_20240131_093005.jpg''"
  have ctor: "fst (PiCameraController 0 (1640, 1232) (4056, 3040) quiet_world)
      = Inr sample_controller"
    by (simp add: eval_defs)
  have t: "now (snd loop_start) = sample_time" by (simp add: eval_defs)
  have ct: "clock_time (now (snd loop_start))" by (simp add: eval_defs clock_time_def)
  have stamp: "spec_timestamp sample_time = ''20240131_093005''"
    by (simp add: spec_timestamp_def sample_time_def zero_padded_def decimal.simps spec_digit_def)
  have r: "fst ?cap = Some ?p" by (simp add: eval_defs)
  then have cap: "?cap = (Some ?p, fst (snd ?cap), snd (snd ?cap))"
    by (metis prod.collapse)
  have fresh: "?p \<notin> paths (snd loop_start)" by (simp add: eval_defs)
  have calls: "call_methods [InteractiveM []] sample_controller (constructed_in quiet_world)
      = (fst loop_start, snd loop_start)"
    by (simp add: loop_start_def)
  from capture_photo_file
    [of 0 "(1640, 1232)" "(4056, 3040)" quiet_world sample_controller
        "constructed_in quiet_world" "[InteractiveM []]" "fst loop_start" "snd loop_start"
        ?p "fst (snd ?cap)" "snd (snd ?cap)"]
    sample_construction calls ct cap
  have "filter is_capture (new_events (snd loop_start) (snd (snd ?cap)))
          = [Did (CaptureFile ?p)] \<and>
        paths (snd (snd ?cap)) = insert ?p (paths (snd loop_start)) \<and>
        (written (snd (snd ?cap)) = written (snd loop_start) @ [?p] \<or>
         written (snd (snd ?cap)) = written (snd loop_start) \<and> ?p \<in> paths (snd loop_start))"
    by blast
  with fresh ctor t ct stamp r show ?thesis by blast
qed

lemma no_capture_in_switch:
  "Did (CaptureFile f) \<notin> Did ` set (switch_to_still c) \<union> Failed ` set (switch_to_still c)"
  "Did (CaptureFile f) \<notin> Did ` set (return_to_preview c) \<union> Failed ` set (return_to_preview c)"
  by (auto simp: switch_to_still_def return_to_preview_def Let_def)

lemma switch_to_still_events:
  "map Did (switch_to_still c) =
     (if preview_active c then [Did StopPreview] else [])
     @ [Did Stop, Did (Configure (still_config c)), Did Start]
     @ (if preview_active c then [Did (StartPreview QTGL)] else [])
     @ [Did (Sleep 1)]"
  by (simp add: switch_to_still_def Let_def)

text \<open>
  C7: when the resolution of the applied configuration differs from the still profile's
  and \<^verbatim>\<open>capture_photo\<close> gets as far as writing the still, the external calls it has
  made before that are exactly: the query of the applied configuration, then stop
  preview (if preview was on), stop, configure the still profile, start, start preview (if
  preview had been on), and the one-second sleep. The still is written after the sleep,
  to the file named after the time of the call, and only once.
\<close>

theorem capture_photo_switch_sequence:
  "applied w = Some cur \<and> main_size cur \<noteq> main_size (still_config c) \<and>
   capture_photo c w = (r, c', w') \<and>
   Did (CaptureFile f) \<in> set (new_events w w')
   \<longrightarrow> f = photos_dir c @ ''/photo_'' @ strftime ''%Y%m%d_%H%M%S'' (now w) @ ''.jpg'' \<and>
       (\<exists>rest. new_events w w' =
          [Did CameraConfiguration]
          @ (if preview_active c then [Did StopPreview] else [])
          @ [Did Stop, Did (Configure (still_config c)), Did Start]
          @ (if preview_active c then [Did (StartPreview QTGL)] else [])
          @ [Did (Sleep 1), Did (CaptureFile f)] @ rest
          \<and> Did (CaptureFile f) \<notin> set rest)"
proof (intro impI, elim conjE)
  let ?fn = "photos_dir c @ ''/photo_'' @ strftime ''%Y%m%d_%H%M%S'' (now w) @ ''.jpg''"
  let ?w1 = "perform CameraConfiguration w"
  assume cfg: "applied w = Some cur"
    and differ: "main_size cur \<noteq> main_size (still_config c)"
    and cap: "capture_photo c w = (r, c', w')"
    and written: "Did (CaptureFile f) \<in> set (new_events w w')"
  show "f = ?fn \<and>
       (\<exists>rest. new_events w w' =
          [Did CameraConfiguration]
          @ (if preview_active c then [Did StopPreview] else [])
          @ [Did Stop, Did (Configure (still_config c)), Did Start]
          @ (if preview_active c then [Did (StartPreview QTGL)] else [])
          @ [Did (Sleep 1), Did (CaptureFile f)] @ rest
          \<and> Did (CaptureFile f) \<notin> set rest)"
  proof (cases c w rule: capture_photo_cases)
    case refused
    with cap have "trace w' = trace w @ [Failed CameraConfiguration]" by auto
    then have "new_events w w' = [Failed CameraConfiguration]" by (rule new_events_append)
    with written show ?thesis by simp
  next
    case unconfigured
    with cfg show ?thesis by simp
  next
    case (ran cur0 r0 w2)
    from ran(1) cfg have cur0: "cur0 = cur" by simp
    from ran(3) cap have w2: "w2 = w'" by simp
    let ?after = "if preview_active c then return_to_preview c else []"
    from ran(2) cur0 differ w2
    have whole: "run_ops (switch_to_still c @ CaptureFile ?fn # ?after) ?w1 = (r0, w')"
      by simp
    obtain r1 wa where first: "run_ops (switch_to_still c) ?w1 = (r1, wa)"
      by (metis surj_pair)
    from run_ops_events [OF first] obtain e1 where
      e1: "trace wa = trace ?w1 @ e1"
          "set e1 \<subseteq> Did ` set (switch_to_still c) \<union> Failed ` set (switch_to_still c)"
          "r1 = None \<longrightarrow> e1 = map Did (switch_to_still c)"
      by blast
    from e1(2) no_capture_in_switch(1) [of f c] have not1: "Did (CaptureFile f) \<notin> set e1"
      by blast
    show ?thesis
    proof (cases r1)
      case (Some e)
      with whole first have "w' = wa" by (simp add: run_ops_append)
      with e1(1) have "trace w' = trace w @ Did CameraConfiguration # e1" by simp
      then have "new_events w w' = Did CameraConfiguration # e1" by (rule new_events_append)
      with written not1 show ?thesis by simp
    next
      case None
      with e1(3) have e1_eq: "e1 = map Did (switch_to_still c)" by simp
      from whole first None
      have second: "run_ops (CaptureFile ?fn # ?after) wa = (r0, w')"
        by (simp add: run_ops_append del: run_ops.simps)
      from ext_call_cases [of "CaptureFile ?fn" wa] show ?thesis
      proof
        assume "ext_call (CaptureFile ?fn) wa = (Some ExternalError, refuse (CaptureFile ?fn) wa)"
        with second have "w' = refuse (CaptureFile ?fn) wa" by simp
        with e1(1) have "trace w' = trace w @ Did CameraConfiguration # e1 @ [Failed (CaptureFile ?fn)]"
          by simp
        then have "new_events w w' = Did CameraConfiguration # e1 @ [Failed (CaptureFile ?fn)]"
          by (rule new_events_append)
        with written not1 show ?thesis by simp
      next
        assume "ext_call (CaptureFile ?fn) wa = (None, perform (CaptureFile ?fn) wa)"
        with second have third: "run_ops ?after (perform (CaptureFile ?fn) wa) = (r0, w')"
          by simp
        from run_ops_events [OF third] obtain e3 where
          e3: "trace w' = trace (perform (CaptureFile ?fn) wa) @ e3"
              "set e3 \<subseteq> Did ` set ?after \<union> Failed ` set ?after"
          by blast
        from e3(2) no_capture_in_switch(2) [of _ c]
        have not3: "\<And>g. Did (CaptureFile g) \<notin> set e3"
          by (auto split: if_splits)
        from e3(1) e1(1)
        have "trace w' = trace w @ Did CameraConfiguration # e1 @ Did (CaptureFile ?fn) # e3"
          by simp
        then have new: "new_events w w' = Did CameraConfiguration # e1 @ Did (CaptureFile ?fn) # e3"
          by (rule new_events_append)
        with written not1 not3 have f: "f = ?fn" by auto
        from new f e1_eq have "new_events w w' =
          [Did CameraConfiguration]
          @ (if preview_active c then [Did StopPreview] else [])
          @ [Did Stop, Did (Configure (still_config c)), Did Start]
          @ (if preview_active c then [Did (StartPreview QTGL)] else [])
          @ [Did (Sleep 1), Did (CaptureFile f)] @ e3"
          by (simp add: switch_to_still_events)
        with f not3 show ?thesis by blast
      qed
    qed
  qed
qed

theorem capture_photo_switch_sequence_witness:
  "applied (snd previewing) = Some (preview_config sample_controller) \<and>
   main_size (preview_config sample_controller) \<noteq> main_size (still_config (fst previewing)) \<and>
   preview_active (fst previewing) \<and>
   Did (CaptureFile ''photos/photo_20240131_093005.jpg'')
     \<in> set (new_events (snd previewing)
              (snd (snd (capture_photo (fst previewing) (snd previewing))))) \<and>
   (\<exists>rest. new_events (snd previewing)
              (snd (snd (capture_photo (fst previewing) (snd previewing)))) =
      [Did CameraConfiguration, Did StopPreview, Did Stop,
       Did (Configure (still_config (fst previewing))), Did Start, Did (StartPreview QTGL),
       Did (Sleep 1), Did (CaptureFile ''photos/photo_20240131_093005.jpg'')] @ rest)"
proof -
  let ?cap = "capture_photo (fst previewing) (snd previewing)"
  have pre: "applied (snd previewing) = Some (preview_config sample_controller)"
    "main_size (preview_config sample_controller) \<noteq> main_size (still_config (fst previewing))"
    "preview_active (fst previewing)"
    by (simp_all add: eval_defs)
  have wr: "Did (CaptureFile ''photos/photo_20240131_093005.jpg'')
     \<in> set (new_events (snd previewing) (snd (snd ?cap)))"
    by (simp add: eval_defs)
  have cap: "?cap = (fst ?cap, fst (snd ?cap), snd (snd ?cap))" by simp
  from capture_photo_switch_sequence
    [of "snd previewing" "preview_config sample_controller" "fst previewing"
        "fst ?cap" "fst (snd ?cap)" "snd (snd ?cap)" "''photos/photo_20240131_093005.jpg''"]
    pre(1,2) cap wr
  have "\<exists>rest. new_events (snd previewing) (snd (snd ?cap)) =
          [Did CameraConfiguration]
          @ (if preview_active (fst previewing) then [Did StopPreview] else [])
          @ [Did Stop, Did (Configure (still_config (fst previewing))), Did Start]
          @ (if preview_active (fst previewing) then [Did (StartPreview QTGL)] else [])
          @ [Did (Sleep 1), Did (CaptureFile ''photos/photo_20240131_093005.jpg'')] @ rest
          \<and> Did (CaptureFile ''photos/photo_20240131_093005.jpg'') \<notin> set rest"
    by blast
  with pre(3) have "\<exists>rest. new_events (snd previewing) (snd (snd ?cap)) =
      [Did CameraConfiguration, Did StopPreview, Did Stop,
       Did (Configure (still_config (fst previewing))), Did Start, Did (StartPreview QTGL),
       Did (Sleep 1), Did (CaptureFile ''photos/photo_20240131_093005.jpg'')] @ rest"
    by auto
  with pre wr show ?thesis by blast
qed

end
